(* ===== verification/Prelude.thy ===== *)
theory Prelude
  imports Main "HOL-Library.Sublist"
begin

text \<open>
  Shared vocabulary of the development of \<^verbatim>\<open>test-helper.js\<close>: the type of clock
  readings and durations, the world record that every helper runs against (a clock read
  by \<^verbatim>\<open>Date.now()\<close> and \<^verbatim>\<open>new Date()\<close>, plus the rest of the
  environment), the collections of rewrite rules the component theories fill, and generic
  arithmetic and list lemmas the component proofs share.
\<close>

section \<open>Collections\<close>

named_theorems poll_simps \<open>unfolding rules of the condition poller\<close>
named_theorems session_simps \<open>rules for the browser-session helpers\<close>

section \<open>Time and the world\<close>

text \<open>
  \<^verbatim>\<open>Date.now()\<close> returns an integral number of milliseconds since the epoch; it may be
  negative for dates before 1970 and a wall clock may be set back, so readings are
  \<open>int\<close>. Durations passed to the helpers (timeout, interval) are \<open>int\<close> as well:
  the code never checks their sign.
\<close>

type_synonym ms = int

record 's world =
  clock :: ms
  env :: 's

abbreviation elapsed :: "ms \<Rightarrow> 's world \<Rightarrow> ms" where
  "elapsed start w \<equiv> clock w - start"

section \<open>Arguments with defaults\<close>

text \<open>
  A JavaScript parameter with a default (\<^verbatim>\<open>timeout = 5000\<close>) takes the default when
  the argument is omitted or \<^verbatim>\<open>undefined\<close>: \<open>None\<close> here.
\<close>

fun default_arg :: "'a \<Rightarrow> 'a option \<Rightarrow> 'a" where
  "default_arg d None = d"
| "default_arg d (Some x) = x"

section \<open>Generic lemmas\<close>

text \<open>A number of steps of width \<open>d\<close> that fit strictly below \<open>t + d\<close> is at most
  \<open>\<lceil>t / d\<rceil>\<close>, written with floor division as on the code's integers.\<close>

lemma mult_less_ceiling:
  fixes k d t :: int
  assumes "0 < d" and "k * d < t + d"
  shows "k \<le> (t + d - 1) div d"
proof -
  have "k * d \<le> t + d - 1" using assms(2) by simp
  then have "k * d div d \<le> (t + d - 1) div d"
    by (rule zdiv_mono1) (use assms(1) in simp)
  with assms(1) show ?thesis by simp
qed

text \<open>Floor division by \<open>k > 1\<close> steps by one exactly at the multiples of \<open>k\<close>.\<close>

lemma div_succ_step:
  fixes x k :: int
  assumes "1 < k"
  shows "(x + 1) div k = x div k + (if k dvd (x + 1) then 1 else 0)"
proof -
  have split: "(x + 1) div k = x div k + (x mod k + 1) div k"
    using div_add1_eq [of x 1 k] assms by simp
  have r: "0 \<le> x mod k" "x mod k < k" using assms by simp_all
  have m: "(x + 1) mod k = (x mod k + 1) mod k" by (simp add: mod_add_left_eq)
  show ?thesis
  proof (cases "x mod k = k - 1")
    case True
    then show ?thesis unfolding split dvd_eq_mod_eq_0 m using assms by simp
  next
    case False
    with r have "x mod k + 1 < k" by simp
    with r show ?thesis unfolding split dvd_eq_mod_eq_0 m by (simp add: div_pos_pos_trivial)
  qed
qed

lemma div_succ_bounds:
  fixes x k :: int
  assumes "1 < k"
  shows "x div k \<le> (x + 1) div k \<and> (x + 1) div k \<le> x div k + 1"
  using div_succ_step [OF assms, of x] by simp

lemma dvd_shift:
  fixes k c y :: int
  assumes "k dvd c"
  shows "k dvd (y - c) \<longleftrightarrow> k dvd y"
  using assms by (metis dvd_diff dvd_add diff_add_cancel)

lemma prefix_append_right [intro]: "prefix xs ys \<Longrightarrow> prefix xs (ys @ zs)"
  by (metis prefix_def append.assoc)

end
