(* ===== verification/JsValue.thy ===== *)
theory JsValue
  imports Prelude
begin

text \<open>
  The JavaScript values the helpers observe: what \<^verbatim>\<open>await condition()\<close> resolves to
  or throws, and how \<^verbatim>\<open>if (...)\<close> reads it. Numbers are integral here (\<open>JNum\<close>),
  with \<open>NaN\<close> separate; fractional numbers are not needed by any property, as every
  nonzero number is truthy.
\<close>

datatype jsval =
    JUndefined
  | JNull
  | JBool bool
  | JNum int
  | JNaN
  | JStr string
  | JObj nat

text \<open>ECMAScript ToBoolean (ECMA-262 7.1.2), applied by the \<^verbatim>\<open>if\<close> of line 14:
  \<^verbatim>\<open>undefined\<close>, \<^verbatim>\<open>null\<close>, \<^verbatim>\<open>false\<close>, \<open>0\<close>, \<open>NaN\<close> and the empty
  string are falsy, everything else (every object included) is truthy.\<close>

fun truthy :: "jsval \<Rightarrow> bool" where
  "truthy JUndefined = False"
| "truthy JNull = False"
| "truthy (JBool b) = b"
| "truthy (JNum n) = (n \<noteq> 0)"
| "truthy JNaN = False"
| "truthy (JStr s) = (s \<noteq> [])"
| "truthy (JObj _) = True"

text \<open>A promise settles either by rejecting with a thrown value (\<open>Inl\<close>) or by
  resolving with a value (\<open>Inr\<close>).\<close>

type_synonym settled = "jsval + jsval"

end
