(* ===== verification/Timer.thy ===== *)
theory Timer
  imports Prelude
begin

text \<open>
  The delay that \<^verbatim>\<open>setTimeout(resolve, interval)\<close> (line 17 of
  \<^verbatim>\<open>test-helper.js\<close>) really waits under Node.js, which runs Playwright tests: the
  requested delay is kept when it lies in \<open>[1, TIMEOUT_MAX]\<close> and replaced by 1 ms
  otherwise (Node's \<^verbatim>\<open>lib/internal/timers.js\<close>). So an interval of 0 or below still
  sleeps 1 ms, and an interval above \<open>2^31 - 1\<close> sleeps 1 ms too.
\<close>

definition TIMEOUT_MAX :: ms where
  "TIMEOUT_MAX = 2147483647"

definition timer_delay :: "ms \<Rightarrow> ms" where
  "timer_delay d = (if 1 \<le> d \<and> d \<le> TIMEOUT_MAX then d else 1)"

lemma timer_delay_pos [simp]: "0 < timer_delay d"
  by (simp add: timer_delay_def)

lemma timer_delay_ge1 [simp]: "1 \<le> timer_delay d"
  by (simp add: timer_delay_def)

lemma timer_delay_nonneg [simp]: "0 \<le> timer_delay d"
  by (simp add: timer_delay_def)

lemma timer_delay_le_max: "timer_delay d \<le> TIMEOUT_MAX"
  by (simp add: timer_delay_def TIMEOUT_MAX_def)

end
