(* ===== verification/Poller.thy ===== *)
theory Poller
  imports JsValue Timer
begin

text \<open>
  The condition poller, \<^verbatim>\<open>waitForCondition\<close> (lines 11--20 of
  \<^verbatim>\<open>src/.github/skills/webapp-testing/test-helper.js\<close>), run against an explicit
  world. The caller's \<^verbatim>\<open>condition\<close> is a function of the world: it may read and
  change the environment and let the clock advance, and it settles by resolving with a
  value or by throwing. The event loop is a scheduler: given the delay of a timer, it
  returns the world in which that timer's callback runs (other tasks may have run
  meanwhile). The loop may not end when the clock does not advance, so it is a
  \<^theory_text>\<open>partial_function\<close> into \<open>option\<close>; the termination theorem says when it
  returns.
\<close>

section \<open>Data\<close>

text \<open>The two ways the promise returned by \<^verbatim>\<open>waitForCondition\<close> rejects: the
  \<^verbatim>\<open>Error\<close> of line 19 (its message is fixed, so it carries nothing), and a value
  thrown by the condition, which \<^verbatim>\<open>await\<close> re-throws.\<close>

datatype poll_error = TimeoutExceeded | Thrown jsval

type_synonym 's condition = "'s world \<Rightarrow> settled \<times> 's world"
type_synonym 's scheduler = "ms \<Rightarrow> 's world \<Rightarrow> 's world"
type_synonym 's poll_result = "(poll_error + bool) \<times> 's world"

section \<open>Operations\<close>

text \<open>One test of the \<^verbatim>\<open>while\<close> at line 13 and one iteration of its body
  (lines 14--17); \<open>start\<close> is the reading of line 12.\<close>

partial_function (option) poll_loop ::
  "'s condition \<Rightarrow> 's scheduler \<Rightarrow> ms \<Rightarrow> ms \<Rightarrow> ms \<Rightarrow> 's world \<Rightarrow> 's poll_result option"
where
  "poll_loop cond sched timeout interval start w =
     (if clock w - start < timeout then
        (case cond w of
           (Inl e, w') \<Rightarrow> Some (Inl (Thrown e), w')
         | (Inr v, w') \<Rightarrow>
             (if truthy v then Some (Inr True, w')
              else poll_loop cond sched timeout interval start
                     (sched (timer_delay interval) w')))
      else Some (Inl TimeoutExceeded, w))"

text \<open>The whole function: defaults of line 11, the reading of line 12, the loop.\<close>

definition wait_for_condition ::
  "'s condition \<Rightarrow> 's scheduler \<Rightarrow> ms option \<Rightarrow> ms option \<Rightarrow> 's world \<Rightarrow> 's poll_result option"
where
  "wait_for_condition cond sched timeout interval w =
     poll_loop cond sched (default_arg 5000 timeout) (default_arg 100 interval) (clock w) w"

section \<open>Contracts of the runtime\<close>

text \<open>What the poller needs of its environment to return: the condition does not set
  the clock back, and a timer of delay \<open>d \<ge> 0\<close> fires no earlier than \<open>d\<close> ms
  later. \<^verbatim>\<open>Date.now()\<close> is a wall clock, so neither is guaranteed by the platform.\<close>

definition clock_monotone :: "'s condition \<Rightarrow> bool" where
  "clock_monotone cond \<longleftrightarrow> (\<forall>w. clock w \<le> clock (snd (cond w)))"

definition timer_sound :: "'s scheduler \<Rightarrow> bool" where
  "timer_sound sched \<longleftrightarrow> (\<forall>d w. 0 \<le> d \<longrightarrow> clock w + d \<le> clock (sched d w))"

text \<open>Stronger contracts, for the latest time of the timeout error: timers fire
  exactly on time, and an evaluation takes at most \<open>c\<close> ms.\<close>

definition timer_exact :: "'s scheduler \<Rightarrow> bool" where
  "timer_exact sched \<longleftrightarrow> (\<forall>d w. clock (sched d w) = clock w + d)"

definition eval_within :: "ms \<Rightarrow> 's condition \<Rightarrow> bool" where
  "eval_within c cond \<longleftrightarrow>
     (\<forall>w. clock w \<le> clock (snd (cond w)) \<and> clock (snd (cond w)) \<le> clock w + c)"

text \<open>The three ways a returned run can have ended.\<close>

definition poll_outcome ::
  "'s condition \<Rightarrow> ms \<Rightarrow> ms \<Rightarrow> (poll_error + bool) \<Rightarrow> 's world \<Rightarrow> bool"
where
  "poll_outcome cond timeout start r w' \<longleftrightarrow>
     (r = Inl TimeoutExceeded \<and> timeout \<le> clock w' - start) \<or>
     (\<exists>w0 e. clock w0 - start < timeout \<and> cond w0 = (Inl e, w') \<and> r = Inl (Thrown e)) \<or>
     (\<exists>w0 v. clock w0 - start < timeout \<and> cond w0 = (Inr v, w') \<and> truthy v \<and> r = Inr True)"

section \<open>Fixtures\<close>

text \<open>A condition that counts its calls in the environment and holds from the
  \<open>n\<close>-th call on; one that always throws; a timer that fires exactly on time.\<close>

definition counter_true_at :: "nat \<Rightarrow> nat condition" where
  "counter_true_at n w = (Inr (JBool (n \<le> env w + 1)), w\<lparr>env := env w + 1\<rparr>)"

definition throwing_cond :: "nat condition" where
  "throwing_cond w = (Inl (JStr ''boom''), w\<lparr>env := env w + 1\<rparr>)"

definition exact_timer :: "'s scheduler" where
  "exact_timer d w = w\<lparr>clock := clock w + d\<rparr>"

section \<open>The loop, one branch at a time\<close>

lemma poll_loop_timeout [poll_simps]:
  "\<not> clock w - start < timeout \<Longrightarrow>
   poll_loop cond sched timeout interval start w = Some (Inl TimeoutExceeded, w)"
  by (simp add: poll_loop.simps)

lemma poll_loop_thrown [poll_simps]:
  "clock w - start < timeout \<Longrightarrow> cond w = (Inl e, w') \<Longrightarrow>
   poll_loop cond sched timeout interval start w = Some (Inl (Thrown e), w')"
  by (simp add: poll_loop.simps)

lemma poll_loop_resolved_true [poll_simps]:
  "clock w - start < timeout \<Longrightarrow> cond w = (Inr v, w') \<Longrightarrow> truthy v \<Longrightarrow>
   poll_loop cond sched timeout interval start w = Some (Inr True, w')"
  by (simp add: poll_loop.simps)

lemma poll_loop_resolved_false [poll_simps]:
  "clock w - start < timeout \<Longrightarrow> cond w = (Inr v, w') \<Longrightarrow> \<not> truthy v \<Longrightarrow>
   poll_loop cond sched timeout interval start w =
   poll_loop cond sched timeout interval start (sched (timer_delay interval) w')"
  by (simp add: poll_loop.simps)

lemmas fixture_defs = counter_true_at_def throwing_cond_def exact_timer_def
  timer_delay_def TIMEOUT_MAX_def

section \<open>Termination\<close>

text \<open>Each iteration that does not return sleeps at least 1 ms (\<open>timer_delay\<close>),
  so under the runtime contracts the distance to the deadline shrinks.\<close>

lemma poll_iteration_advances:
  assumes "clock_monotone cond" and "timer_sound sched" and "cond w = (s, w')"
  shows "clock w + 1 \<le> clock (sched (timer_delay interval) w')"
proof -
  have "clock w \<le> clock w'" using assms(1,3) unfolding clock_monotone_def by (metis snd_conv)
  moreover have "clock w' + timer_delay interval \<le> clock (sched (timer_delay interval) w')"
    using assms(2) by (simp add: timer_sound_def order_less_imp_le)
  ultimately show ?thesis using timer_delay_ge1 [of interval] by linarith
qed

lemma poll_loop_returns:
  assumes mono: "clock_monotone cond" and sound: "timer_sound sched"
  shows "\<exists>r. poll_loop cond sched timeout interval start w = Some r"
proof (induction "nat (start + timeout - clock w)" arbitrary: w rule: less_induct)
  case less
  show ?case
  proof (cases "clock w - start < timeout")
    case False
    then show ?thesis by (simp add: poll_loop_timeout)
  next
    case live: True
    obtain s w' where cw: "cond w = (s, w')" by fastforce
    show ?thesis
    proof (cases s)
      case (Inl e)
      with live cw show ?thesis by (simp add: poll_loop_thrown)
    next
      case (Inr v)
      show ?thesis
      proof (cases "truthy v")
        case True
        with live cw Inr show ?thesis by (simp add: poll_loop_resolved_true)
      next
        case False
        let ?w2 = "sched (timer_delay interval) w'"
        have "clock w + 1 \<le> clock ?w2" by (rule poll_iteration_advances [OF mono sound cw])
        with live have "nat (start + timeout - clock ?w2) < nat (start + timeout - clock w)"
          by linarith
        then obtain r where "poll_loop cond sched timeout interval start ?w2 = Some r"
          using less by blast
        with live cw Inr False show ?thesis by (simp add: poll_loop_resolved_false)
      qed
    qed
  qed
qed

text \<open>With exact timers and evaluations of at most \<open>c\<close> ms, the last passing
  test is at most \<open>timeout - 1\<close> ms after the start, so the failing one comes at most
  \<open>c + d\<close> later.\<close>

lemma eval_within_monotone: "eval_within c cond \<Longrightarrow> clock_monotone cond"
  by (simp add: eval_within_def clock_monotone_def)

lemma timer_exact_sound: "timer_exact sched \<Longrightarrow> timer_sound sched"
  by (simp add: timer_exact_def timer_sound_def)

lemma poll_loop_timeout_latest:
  assumes ev: "eval_within c cond" and ex: "timer_exact sched"
  shows "poll_loop cond sched timeout interval start w = Some (Inl TimeoutExceeded, w') \<Longrightarrow>
    clock w' - start \<le> max (clock w - start) (timeout - 1 + c + timer_delay interval)"
proof (induction "nat (start + timeout - clock w)" arbitrary: w rule: less_induct)
  case less
  show ?case
  proof (cases "clock w - start < timeout")
    case False
    with less.prems show ?thesis by (simp add: poll_loop_timeout)
  next
    case live: True
    obtain s w1 where cw: "cond w = (s, w1)" by fastforce
    have c1: "clock w1 \<le> clock w + c" using ev cw unfolding eval_within_def by (metis snd_conv)
    show ?thesis
    proof (cases s)
      case (Inl e)
      with live cw less.prems show ?thesis by (simp add: poll_loop_thrown)
    next
      case (Inr v)
      show ?thesis
      proof (cases "truthy v")
        case True
        with live cw Inr less.prems show ?thesis by (simp add: poll_loop_resolved_true)
      next
        case False
        let ?w2 = "sched (timer_delay interval) w1"
        have ret2: "poll_loop cond sched timeout interval start ?w2 = Some (Inl TimeoutExceeded, w')"
          using live cw Inr False less.prems by (simp add: poll_loop_resolved_false)
        have w2: "clock ?w2 = clock w1 + timer_delay interval" using ex by (simp add: timer_exact_def)
        have "clock w + 1 \<le> clock ?w2"
          by (rule poll_iteration_advances [OF eval_within_monotone [OF ev] timer_exact_sound [OF ex] cw])
        with live have "nat (start + timeout - clock ?w2) < nat (start + timeout - clock w)" by linarith
        from less.hyps [OF this ret2] w2 c1 live show ?thesis by linarith
      qed
    qed
  qed
qed

section \<open>Partial correctness\<close>

text \<open>Whatever the runtime, a run that returns has ended in one of the three ways of
  \<open>poll_outcome\<close>: by fixpoint induction over \<open>poll_loop\<close>.\<close>

lemma poll_loop_outcome:
  assumes ret: "poll_loop cond sched timeout interval start w = Some (r, w')"
  shows "poll_outcome cond timeout start r w'"
proof (rule poll_loop.raw_induct
    [where P = "\<lambda>cond sched timeout interval start w res.
                  poll_outcome cond timeout start (fst res) (snd res)", OF _ ret, simplified])
  fix loop :: "'s condition \<Rightarrow> 's scheduler \<Rightarrow> ms \<Rightarrow> ms \<Rightarrow> ms \<Rightarrow> 's world \<Rightarrow> 's poll_result option"
  fix cond sched timeout interval start w res
  assume IH: "\<And>cond sched timeout interval start w res.
      loop cond sched timeout interval start w = Some res \<Longrightarrow>
      poll_outcome cond timeout start (fst res) (snd res)"
  assume eq: "(if clock w - start < timeout then
        (case cond w of
           (Inl e, w') \<Rightarrow> Some (Inl (Thrown e), w')
         | (Inr v, w') \<Rightarrow>
             (if truthy v then Some (Inr True, w')
              else loop cond sched timeout interval start
                     (sched (timer_delay interval) w')))
      else Some (Inl TimeoutExceeded, w)) = Some res"
  show "poll_outcome cond timeout start (fst res) (snd res)"
  proof (cases "clock w - start < timeout")
    case False
    with eq show ?thesis by (auto simp: poll_outcome_def)
  next
    case live: True
    obtain s w1 where cw: "cond w = (s, w1)" by fastforce
    show ?thesis
    proof (cases s)
      case (Inl e)
      with live cw eq show ?thesis by (auto simp: poll_outcome_def)
    next
      case (Inr v)
      show ?thesis
      proof (cases "truthy v")
        case True
        with live cw Inr eq show ?thesis by (auto simp: poll_outcome_def)
      next
        case False
        with live cw Inr eq
        have "loop cond sched timeout interval start (sched (timer_delay interval) w1) = Some res"
          by simp
        then show ?thesis by (rule IH)
      qed
    qed
  qed
qed

lemma wait_for_condition_outcome:
  "wait_for_condition cond sched timeout interval w = Some (r, w') \<Longrightarrow>
   poll_outcome cond (default_arg 5000 timeout) (clock w) r w'"
  unfolding wait_for_condition_def by (rule poll_loop_outcome)

section \<open>A condition that turns true at its n-th evaluation\<close>

text \<open>With timers on time and a condition that takes no time and is true from its
  \<open>n\<close>-th evaluation on, the \<open>k\<close>-th evaluation (from 0) starts at \<open>k * d\<close> ms and is
  live exactly when \<open>k\<close> is below the ceiling of \<open>timeout / d\<close>.\<close>

lemma ceiling_live:
  fixes T d :: int
  assumes "0 < d"
  shows "int k < (T + d - 1) div d \<longleftrightarrow> int k * d < T"
proof
  assume "int k < (T + d - 1) div d"
  then have "(int k + 1) * d \<le> (T + d - 1) div d * d" using assms by (simp add: mult_right_mono)
  also have "\<dots> \<le> T + d - 1" using div_mult_mod_eq [of "T + d - 1" d] pos_mod_sign [OF assms, of "T + d - 1"] by linarith
  finally show "int k * d < T" by (simp add: algebra_simps)
next
  assume "int k * d < T"
  have "int k * d + d \<le> T - 1 + d" using \<open>int k * d < T\<close> by simp
  then have "(int k + 1) * d \<le> T + d - 1" by (simp add: algebra_simps)
  then have "(int k + 1) * d div d \<le> (T + d - 1) div d" by (rule zdiv_mono1) (use assms in simp)
  then show "int k < (T + d - 1) div d" using assms by simp
qed

lemma counter_poll_loop:
  fixes T c d :: int
  assumes d_def: "d = timer_delay I" and K_def: "K = nat ((T + d - 1) div d)"
  assumes "k \<le> n - 1" and "k \<le> K"
  shows "poll_loop (counter_true_at n) exact_timer T I c \<lparr>clock = c + int k * d, env = k\<rparr> =
    (if n - 1 < K then Some (Inr True, \<lparr>clock = c + int (n - 1) * d, env = Suc (n - 1)\<rparr>)
     else Some (Inl TimeoutExceeded, \<lparr>clock = c + int K * d, env = K\<rparr>))"
  using assms(3,4)
proof (induction "K - k" arbitrary: k)
  case 0
  then have kK: "k = K" by simp
  have "\<not> int k < (T + d - 1) div d" using kK K_def by simp
  then have "\<not> int k * d < T" using ceiling_live [of d k T] d_def by simp
  moreover have "\<not> n - 1 < K" using 0 kK by simp
  ultimately show ?case using kK by (simp add: poll_loop_timeout)
next
  case (Suc m)
  then have kK: "k < K" by simp
  have "int k < (T + d - 1) div d" using kK K_def by simp
  then have live: "int k * d < T" using ceiling_live [of d k T] d_def by simp
  show ?case
  proof (cases "k = n - 1")
    case True
    then have "n \<le> k + 1" by simp
    with live True kK show ?thesis
      by (simp add: poll_loop_resolved_true [where v = "JBool True"] counter_true_at_def)
  next
    case False
    with Suc.prems have kf: "k < n - 1" by simp
    then have "\<not> n \<le> k + 1" by simp
    then have "poll_loop (counter_true_at n) exact_timer T I c \<lparr>clock = c + int k * d, env = k\<rparr> =
        poll_loop (counter_true_at n) exact_timer T I c \<lparr>clock = c + int (Suc k) * d, env = Suc k\<rparr>"
      using live by (simp add: poll_loop_resolved_false [where v = "JBool False"] counter_true_at_def
          exact_timer_def d_def algebra_simps)
    also have "\<dots> = (if n - 1 < K then Some (Inr True, \<lparr>clock = c + int (n - 1) * d, env = Suc (n - 1)\<rparr>)
     else Some (Inl TimeoutExceeded, \<lparr>clock = c + int K * d, env = K\<rparr>))"
      using Suc.hyps(1) [of "Suc k"] Suc.hyps(2) kf kK by simp
    finally show ?thesis .
  qed
qed

section \<open>Properties\<close>

text \<open>C1. Termination: when the condition never sets the clock back and timers do not
  fire early, \<^verbatim>\<open>waitForCondition\<close> settles, whatever the condition returns and
  whatever the timeout and interval.\<close>

theorem wait_for_condition_terminates:
  assumes "clock_monotone cond" and "timer_sound sched"
  shows "\<exists>r. wait_for_condition cond sched timeout interval w = Some r"
  unfolding wait_for_condition_def using assms by (rule poll_loop_returns)

text \<open>C2. The timeout error is thrown only once the time elapsed since the reading of
  line 12 has reached the timeout (the default 5000 ms when it is omitted).\<close>

theorem wait_for_condition_timeout_after_deadline:
  assumes "wait_for_condition cond sched timeout interval w = Some (Inl TimeoutExceeded, w')"
  shows "default_arg 5000 timeout \<le> clock w' - clock w"
  using wait_for_condition_outcome [OF assms] by (auto simp: poll_outcome_def)

text \<open>C3. Success is reported only right after an evaluation of the condition, begun
  before the deadline, that resolved to a truthy value; the world returned is the one that
  evaluation left, so no delay follows success.\<close>

theorem wait_for_condition_success_immediate:
  assumes "wait_for_condition cond sched timeout interval w = Some (Inr b, w')"
  shows "b = True \<and> (\<exists>w0 v. clock w0 - clock w < default_arg 5000 timeout \<and>
                            cond w0 = (Inr v, w') \<and> truthy v)"
  using wait_for_condition_outcome [OF assms] by (auto simp: poll_outcome_def)

text \<open>C4. A timeout of 0 or less throws the timeout error at once: the test of line 13
  comes before the first evaluation, so the condition is never evaluated and the world is
  left as it was.\<close>

theorem wait_for_condition_nonpositive_timeout:
  assumes "t \<le> 0"
  shows "wait_for_condition cond sched (Some t) interval w = Some (Inl TimeoutExceeded, w)"
  using assms by (simp add: wait_for_condition_def poll_loop_timeout)

text \<open>C5. A value thrown by the condition is re-thrown by \<^verbatim>\<open>waitForCondition\<close>
  (the \<^verbatim>\<open>await\<close> of line 14 inside the async function): when the timeout is positive
  and the first evaluation throws \<open>e\<close>, the call rejects with \<open>e\<close> in the world that
  evaluation left, whatever the timers do, without sleeping or retrying.\<close>

theorem wait_for_condition_thrown_propagates:
  assumes "0 < default_arg 5000 timeout" and "cond w = (Inl e, w')"
  shows "wait_for_condition cond sched timeout interval w = Some (Inl (Thrown e), w')"
  unfolding wait_for_condition_def using assms by (simp add: poll_loop_thrown)

text \<open>C15. With timers on time and evaluations of at most \<open>c\<close> ms, the timeout error
  is thrown at most \<open>timeout - 1 + c + d\<close> ms after the start (\<open>d\<close> the delay the
  timer really waits), or at once when the timeout is not positive: at most one evaluation
  and one sleep past the deadline.\<close>

theorem wait_for_condition_timeout_latest:
  assumes "eval_within c cond" and "timer_exact sched"
    and "wait_for_condition cond sched timeout interval w = Some (Inl TimeoutExceeded, w')"
  shows "clock w' - clock w \<le>
    max 0 (default_arg 5000 timeout - 1 + c + timer_delay (default_arg 100 interval))"
  using poll_loop_timeout_latest [OF assms(1,2)] assms(3) unfolding wait_for_condition_def
  by fastforce

text \<open>C23. For a condition that is true from its \<open>n\<close>-th evaluation on, timers on time and
  any timeout and interval (the defaults of line 11 applied), \<^verbatim>\<open>waitForCondition\<close> resolves
  \<open>true\<close> after exactly \<open>max n 1\<close> evaluations at \<open>(n - 1) * d\<close> ms when that evaluation starts
  before the deadline, and otherwise throws the timeout error after the \<open>K\<close> live
  evaluations, \<open>K\<close> the ceiling of \<open>timeout / d\<close> (0 for a nonpositive timeout), at \<open>K * d\<close> ms.
  Here \<open>d\<close> is the delay the timer really applies to the interval.\<close>

theorem wait_for_condition_counter:
  "wait_for_condition (counter_true_at n) exact_timer timeout interval \<lparr>clock = c, env = 0\<rparr> =
   (let T = default_arg 5000 timeout; d = timer_delay (default_arg 100 interval);
        K = nat ((T + d - 1) div d)
    in if n - 1 < K then Some (Inr True, \<lparr>clock = c + int (n - 1) * d, env = n - 1 + 1\<rparr>)
       else Some (Inl TimeoutExceeded, \<lparr>clock = c + int K * d, env = K\<rparr>))"
  using counter_poll_loop [of _ "default_arg 100 interval" _ "default_arg 5000 timeout" 0 n c, OF refl refl]
  by (simp add: wait_for_condition_def Let_def)
section \<open>Witnesses\<close>

lemma counter_true_at_monotone: "clock_monotone (counter_true_at n)"
  by (simp add: clock_monotone_def counter_true_at_def)

lemma exact_timer_sound: "timer_sound exact_timer"
  by (simp add: timer_sound_def exact_timer_def)

lemma counter_true_at_within: "eval_within 0 (counter_true_at n)"
  by (simp add: eval_within_def counter_true_at_def)

lemma exact_timer_exact: "timer_exact exact_timer"
  by (simp add: timer_exact_def exact_timer_def)

theorem wait_for_condition_terminates_witness:
  "\<exists>r. wait_for_condition (counter_true_at 7) exact_timer (Some 1000) (Some 0) \<lparr>clock = 5, env = 0\<rparr> = Some r"
  by (rule wait_for_condition_terminates [OF counter_true_at_monotone exact_timer_sound])

theorem wait_for_condition_timeout_after_deadline_witness:
  "default_arg 5000 (Some 200) \<le> clock \<lparr>clock = 200::int, env = 4::nat\<rparr> - clock \<lparr>clock = 0::int, env = 0::nat\<rparr>"
  by (rule wait_for_condition_timeout_after_deadline
        [where cond = "counter_true_at 1000" and sched = exact_timer and interval = "Some 50"])
     (simp add: wait_for_condition_def poll_loop.simps fixture_defs)

theorem wait_for_condition_success_immediate_witness:
  "True = True \<and> (\<exists>w0 v. clock w0 - clock \<lparr>clock = 0::int, env = 0::nat\<rparr> < default_arg 5000 None \<and>
      counter_true_at 3 w0 = (Inr v, \<lparr>clock = 200, env = 3\<rparr>) \<and> truthy v)"
  by (rule wait_for_condition_success_immediate [where sched = exact_timer and timeout = None and interval = None])
     (simp add: wait_for_condition_def poll_loop.simps fixture_defs)

theorem wait_for_condition_nonpositive_timeout_witness:
  "wait_for_condition (counter_true_at 1) exact_timer (Some 0) None \<lparr>clock = 42, env = 0\<rparr>
   = Some (Inl TimeoutExceeded, \<lparr>clock = 42, env = 0\<rparr>)"
  by (rule wait_for_condition_nonpositive_timeout) simp

theorem wait_for_condition_thrown_propagates_witness:
  "0 < default_arg 5000 (None :: int option) \<and>
   throwing_cond \<lparr>clock = 0, env = 0\<rparr> = (Inl (JStr ''boom''), \<lparr>clock = 0, env = 1\<rparr>) \<and>
   wait_for_condition throwing_cond exact_timer None None \<lparr>clock = 0, env = 0\<rparr> =
     Some (Inl (Thrown (JStr ''boom'')), \<lparr>clock = 0, env = 1\<rparr>)"
  using wait_for_condition_thrown_propagates [of None throwing_cond "\<lparr>clock = 0, env = 0\<rparr>"
      "JStr ''boom''" "\<lparr>clock = 0, env = 1\<rparr>" exact_timer None]
  by (simp add: fixture_defs)

theorem wait_for_condition_timeout_latest_witness:
  "clock \<lparr>clock = 200::int, env = 4::nat\<rparr> - clock \<lparr>clock = 0::int, env = 0::nat\<rparr> \<le>
    max 0 (default_arg 5000 (Some 200) - 1 + 0 + timer_delay (default_arg 100 (Some 50)))"
  by (rule wait_for_condition_timeout_latest
        [OF counter_true_at_within [of 1000] exact_timer_exact, where interval = "Some 50"])
     (simp add: wait_for_condition_def poll_loop.simps fixture_defs)

end
