(* ===== verification/PollMachine.thy ===== *)
theory PollMachine
  imports Poller
begin

text \<open>
  The poll loop of \<^verbatim>\<open>waitForCondition\<close> as a small-step machine, one program point
  per control location of lines 13--17, with a ghost counter of the evaluations. The
  environment is left nondeterministic: the clock may advance before any reading of line
  13 (\<open>tick\<close>: time passes between line 12 and line 13 too), an evaluation takes any
  time and settles in any way, and a sleep lasts at least the timer's delay. The invariant
  \<open>poll_inv\<close>, proved by rule induction, bounds the number of evaluations by the
  deadline; a simulation shows that every returning run of the executable
  \<open>poll_loop\<close> is a run of the machine, so the bound holds of the code.
\<close>

section \<open>Machine\<close>

datatype pc = AtCheck | AtEval | AtSleep | Finished "poll_error + bool"

record pstate =
  pc :: pc
  now :: ms
  calls :: nat

inductive poll_step :: "ms \<Rightarrow> ms \<Rightarrow> ms \<Rightarrow> pstate \<Rightarrow> pstate \<Rightarrow> bool"
  for timeout interval start
where
  tick: "pc s = AtCheck \<Longrightarrow> now s \<le> t \<Longrightarrow>
    poll_step timeout interval start s (s\<lparr>now := t\<rparr>)"
| check_enter: "pc s = AtCheck \<Longrightarrow> now s - start < timeout \<Longrightarrow>
    poll_step timeout interval start s (s\<lparr>pc := AtEval\<rparr>)"
| check_exit: "pc s = AtCheck \<Longrightarrow> \<not> now s - start < timeout \<Longrightarrow>
    poll_step timeout interval start s (s\<lparr>pc := Finished (Inl TimeoutExceeded)\<rparr>)"
| eval_reject: "pc s = AtEval \<Longrightarrow> now s \<le> t \<Longrightarrow>
    poll_step timeout interval start s
      (s\<lparr>pc := Finished (Inl (Thrown e)), now := t, calls := Suc (calls s)\<rparr>)"
| eval_truthy: "pc s = AtEval \<Longrightarrow> now s \<le> t \<Longrightarrow> truthy v \<Longrightarrow>
    poll_step timeout interval start s
      (s\<lparr>pc := Finished (Inr True), now := t, calls := Suc (calls s)\<rparr>)"
| eval_falsy: "pc s = AtEval \<Longrightarrow> now s \<le> t \<Longrightarrow> \<not> truthy v \<Longrightarrow>
    poll_step timeout interval start s (s\<lparr>pc := AtSleep, now := t, calls := Suc (calls s)\<rparr>)"
| sleep: "pc s = AtSleep \<Longrightarrow> now s + timer_delay interval \<le> t \<Longrightarrow>
    poll_step timeout interval start s (s\<lparr>pc := AtCheck, now := t\<rparr>)"

definition poll_init :: "ms \<Rightarrow> pstate" where
  "poll_init start = \<lparr>pc = AtCheck, now = start, calls = 0\<rparr>"

inductive poll_reachable :: "ms \<Rightarrow> ms \<Rightarrow> ms \<Rightarrow> pstate \<Rightarrow> bool"
  for timeout interval start
where
  init: "poll_reachable timeout interval start (poll_init start)"
| step: "poll_reachable timeout interval start s \<Longrightarrow> poll_step timeout interval start s s' \<Longrightarrow>
    poll_reachable timeout interval start s'"

text \<open>The invariant: the \<open>k\<close>-th evaluation began at least \<open>(k - 1)\<close> delays after
  the start and before the deadline.\<close>

definition poll_inv :: "ms \<Rightarrow> ms \<Rightarrow> ms \<Rightarrow> pstate \<Rightarrow> bool" where
  "poll_inv timeout interval start s \<longleftrightarrow>
     (let d = timer_delay interval; k = int (calls s); e = now s - start in
      (k = 0 \<or> (k - 1) * d < timeout) \<and>
      (case pc s of
         AtCheck \<Rightarrow> k * d \<le> e
       | AtEval \<Rightarrow> k * d \<le> e \<and> e < timeout
       | AtSleep \<Rightarrow> 1 \<le> k \<and> (k - 1) * d \<le> e
       | Finished r \<Rightarrow> (r = Inl TimeoutExceeded \<longrightarrow> timeout \<le> e) \<and>
                       (r \<noteq> Inl TimeoutExceeded \<longrightarrow> 1 \<le> k)))"

text \<open>An observer of the number of evaluations: a counter in the environment that
  each evaluation of the condition increments and that nothing else touches.\<close>

definition counts_calls :: "('s \<Rightarrow> nat) \<Rightarrow> 's condition \<Rightarrow> 's scheduler \<Rightarrow> bool" where
  "counts_calls cnt cond sched \<longleftrightarrow>
     (\<forall>w. cnt (env (snd (cond w))) = Suc (cnt (env w))) \<and>
     (\<forall>d w. cnt (env (sched d w)) = cnt (env w))"

text \<open>A measure on control: four times the evaluations still allowed by the bound
  of \<open>poll_inv_calls_bound\<close>, plus a rank of the program point that every move
  within one iteration lowers.\<close>

fun pc_rank :: "pc \<Rightarrow> nat" where
  "pc_rank AtCheck = 2"
| "pc_rank AtEval = 1"
| "pc_rank AtSleep = 3"
| "pc_rank (Finished _) = 0"

definition control_measure :: "ms \<Rightarrow> ms \<Rightarrow> pstate \<Rightarrow> nat" where
  "control_measure timeout interval s =
     4 * (nat ((timeout + timer_delay interval - 1) div timer_delay interval) - calls s) + pc_rank (pc s)"

section \<open>The invariant\<close>

lemma poll_inv_init: "poll_inv timeout interval start (poll_init start)"
  by (simp add: poll_inv_def poll_init_def)

lemma poll_step_inv:
  "poll_step timeout interval start s s' \<Longrightarrow> poll_inv timeout interval start s \<Longrightarrow>
   poll_inv timeout interval start s'"
  by (induction rule: poll_step.induct) (auto simp: poll_inv_def Let_def algebra_simps)

lemma poll_reachable_inv:
  "poll_reachable timeout interval start s \<Longrightarrow> poll_inv timeout interval start s"
  by (induction rule: poll_reachable.induct) (auto intro: poll_inv_init poll_step_inv)

section \<open>Runs\<close>

text \<open>Derived steps between states written out, for building runs.\<close>

lemma reach_via:
  "poll_reachable timeout interval start s \<Longrightarrow> poll_step timeout interval start s s' \<Longrightarrow>
   s' = t \<Longrightarrow> poll_reachable timeout interval start t"
  by (blast intro: poll_reachable.step)

lemma reach_enter:
  "poll_reachable timeout interval start \<lparr>pc = AtCheck, now = n, calls = k\<rparr> \<Longrightarrow>
   n - start < timeout \<Longrightarrow>
   poll_reachable timeout interval start \<lparr>pc = AtEval, now = n, calls = k\<rparr>"
  by (erule reach_via [OF _ poll_step.check_enter]) simp_all

lemma reach_exit:
  "poll_reachable timeout interval start \<lparr>pc = AtCheck, now = n, calls = k\<rparr> \<Longrightarrow>
   \<not> n - start < timeout \<Longrightarrow>
   poll_reachable timeout interval start \<lparr>pc = Finished (Inl TimeoutExceeded), now = n, calls = k\<rparr>"
  by (erule reach_via [OF _ poll_step.check_exit]) simp_all

lemma reach_reject:
  "poll_reachable timeout interval start \<lparr>pc = AtEval, now = n, calls = k\<rparr> \<Longrightarrow> n \<le> t \<Longrightarrow>
   poll_reachable timeout interval start \<lparr>pc = Finished (Inl (Thrown e)), now = t, calls = Suc k\<rparr>"
  by (erule reach_via [OF _ poll_step.eval_reject]) simp_all

lemma reach_truthy:
  "poll_reachable timeout interval start \<lparr>pc = AtEval, now = n, calls = k\<rparr> \<Longrightarrow> n \<le> t \<Longrightarrow>
   truthy v \<Longrightarrow>
   poll_reachable timeout interval start \<lparr>pc = Finished (Inr True), now = t, calls = Suc k\<rparr>"
  by (erule reach_via [OF _ poll_step.eval_truthy]) simp_all

lemma reach_falsy_sleep:
  "poll_reachable timeout interval start \<lparr>pc = AtEval, now = n, calls = k\<rparr> \<Longrightarrow> n \<le> t \<Longrightarrow>
   \<not> truthy v \<Longrightarrow> t + timer_delay interval \<le> t' \<Longrightarrow>
   poll_reachable timeout interval start \<lparr>pc = AtCheck, now = t', calls = Suc k\<rparr>"
proof -
  assume r: "poll_reachable timeout interval start \<lparr>pc = AtEval, now = n, calls = k\<rparr>"
    and "n \<le> t" and "\<not> truthy v" and d: "t + timer_delay interval \<le> t'"
  then have "poll_reachable timeout interval start \<lparr>pc = AtSleep, now = t, calls = Suc k\<rparr>"
    by (elim reach_via [OF _ poll_step.eval_falsy]) simp_all
  then show ?thesis by (rule reach_via [OF _ poll_step.sleep]) (use d in simp_all)
qed

lemma poll_inv_calls_bound:
  assumes "poll_inv timeout interval start s"
  shows "calls s \<le> nat ((timeout + timer_delay interval - 1) div timer_delay interval)"
proof -
  let ?d = "timer_delay interval" and ?k = "int (calls s)"
  have "?k = 0 \<or> (?k - 1) * ?d < timeout"
    using assms by (simp add: poll_inv_def Let_def)
  then show ?thesis
  proof
    assume "?k = 0" then show ?thesis by simp
  next
    assume "(?k - 1) * ?d < timeout"
    then have "?k * ?d < timeout + ?d" by (simp add: algebra_simps)
    then have "?k \<le> (timeout + ?d - 1) div ?d" by (rule mult_less_ceiling [OF timer_delay_pos])
    then show ?thesis by linarith
  qed
qed

lemma poll_machine_progress:
  "(\<forall>r. pc s \<noteq> Finished r) \<Longrightarrow> \<exists>s'. poll_step timeout interval start s s'"
proof (cases "pc s")
  case AtCheck
  then show ?thesis using poll_step.check_enter poll_step.check_exit by blast
next
  case AtEval
  then show ?thesis using poll_step.eval_truthy [of s "now s" "JBool True"] by auto
next
  case AtSleep
  then show ?thesis using poll_step.sleep by blast
qed simp

lemma poll_step_control_decreases:
  assumes step: "poll_step timeout interval start s s'" and moved: "pc s' \<noteq> pc s"
    and bound: "calls s' \<le> nat ((timeout + timer_delay interval - 1) div timer_delay interval)"
  shows "control_measure timeout interval s' < control_measure timeout interval s"
  using step moved bound by (induction rule: poll_step.induct) (auto simp: control_measure_def)

lemma poll_loop_simulation:
  assumes mono: "clock_monotone cond" and sound: "timer_sound sched"
  shows "poll_loop cond sched timeout interval start w = Some (r, w') \<Longrightarrow>
    poll_reachable timeout interval start \<lparr>pc = AtCheck, now = clock w, calls = k\<rparr> \<Longrightarrow>
    \<exists>k'. poll_reachable timeout interval start \<lparr>pc = Finished r, now = clock w', calls = k'\<rparr> \<and>
         (counts_calls cnt cond sched \<longrightarrow> k' + cnt (env w) = k + cnt (env w'))"
proof (induction "nat (start + timeout - clock w)" arbitrary: w k rule: less_induct)
  case less
  note ret = less.prems(1) and reach = less.prems(2)
  show ?case
  proof (cases "clock w - start < timeout")
    case False
    with ret have "r = Inl TimeoutExceeded" "w' = w" by (simp_all add: poll_loop_timeout)
    with False reach show ?thesis using reach_exit by blast
  next
    case live: True
    obtain s w1 where cw: "cond w = (s, w1)" by fastforce
    have mono1: "clock w \<le> clock w1" using mono cw unfolding clock_monotone_def by (metis snd_conv)
    have ev: "poll_reachable timeout interval start \<lparr>pc = AtEval, now = clock w, calls = k\<rparr>"
      using reach_enter [OF reach live] .
    have cnt1: "counts_calls cnt cond sched \<Longrightarrow> cnt (env w1) = Suc (cnt (env w))"
      using cw unfolding counts_calls_def by (metis snd_conv)
    show ?thesis
    proof (cases s)
      case (Inl e)
      with live cw ret have "r = Inl (Thrown e)" "w' = w1" by (simp_all add: poll_loop_thrown)
      then show ?thesis using reach_reject [OF ev mono1] cnt1 by auto
    next
      case (Inr v)
      show ?thesis
      proof (cases "truthy v")
        case True
        with live cw Inr ret have "r = Inr True" "w' = w1" by (simp_all add: poll_loop_resolved_true)
        then show ?thesis using reach_truthy [OF ev mono1 True] cnt1 by auto
      next
        case False
        let ?w2 = "sched (timer_delay interval) w1"
        have ret2: "poll_loop cond sched timeout interval start ?w2 = Some (r, w')"
          using live cw Inr False ret by (simp add: poll_loop_resolved_false)
        have "clock w1 + timer_delay interval \<le> clock ?w2"
          using sound by (simp add: timer_sound_def order_less_imp_le)
        then have reach2: "poll_reachable timeout interval start \<lparr>pc = AtCheck, now = clock ?w2, calls = Suc k\<rparr>"
          by (rule reach_falsy_sleep [OF ev mono1 False])
        have "clock w + 1 \<le> clock ?w2" by (rule poll_iteration_advances [OF mono sound cw])
        with live have "nat (start + timeout - clock ?w2) < nat (start + timeout - clock w)"
          by linarith
        from less.hyps [OF this ret2 reach2] obtain k' where
          fin: "poll_reachable timeout interval start \<lparr>pc = Finished r, now = clock w', calls = k'\<rparr>"
          and c: "counts_calls cnt cond sched \<longrightarrow> k' + cnt (env ?w2) = Suc k + cnt (env w')"
          by blast
        have "counts_calls cnt cond sched \<Longrightarrow> cnt (env ?w2) = Suc (cnt (env w))"
          using cnt1 unfolding counts_calls_def by simp
        with fin c show ?thesis by auto
      qed
    qed
  qed
qed

lemma reach_iteration:
  "poll_reachable timeout interval start \<lparr>pc = AtCheck, now = n, calls = k\<rparr> \<Longrightarrow>
   n - start < timeout \<Longrightarrow> \<not> truthy v \<Longrightarrow> n + timer_delay interval \<le> t' \<Longrightarrow>
   poll_reachable timeout interval start \<lparr>pc = AtCheck, now = t', calls = Suc k\<rparr>"
  by (drule reach_enter) (auto intro: reach_falsy_sleep)

section \<open>Properties\<close>

text \<open>C6. Bound on the evaluations: in every reachable state the condition has been
  evaluated at most \<open>\<lceil>timeout / d\<rceil>\<close> times, \<open>d\<close> the delay the timer really waits
  (at least 1 ms): each evaluation but the first follows a full sleep, and each begins
  before the deadline.\<close>

theorem poll_calls_bound:
  assumes "poll_reachable timeout interval start s"
  shows "calls s \<le> nat ((timeout + timer_delay interval - 1) div timer_delay interval)"
  using poll_reachable_inv [OF assms] by (rule poll_inv_calls_bound)


text \<open>C8. The bound holds of the code: when the environment counts the evaluations,
  a returning run of \<^verbatim>\<open>waitForCondition\<close> has evaluated the condition at most
  \<open>\<lceil>timeout / d\<rceil>\<close> times.\<close>

theorem wait_for_condition_calls_bound:
  assumes "clock_monotone cond" and "timer_sound sched" and "counts_calls cnt cond sched"
    and "wait_for_condition cond sched timeout interval w = Some (r, w')"
  shows "cnt (env w') - cnt (env w) \<le>
    nat ((default_arg 5000 timeout + timer_delay (default_arg 100 interval) - 1)
         div timer_delay (default_arg 100 interval))"
proof -
  let ?T = "default_arg 5000 timeout" and ?I = "default_arg 100 interval"
  have "poll_reachable ?T ?I (clock w) \<lparr>pc = AtCheck, now = clock w, calls = 0\<rparr>"
    using poll_reachable.init by (simp add: poll_init_def)
  then obtain k where r: "poll_reachable ?T ?I (clock w) \<lparr>pc = Finished r, now = clock w', calls = k\<rparr>"
    and c: "k + cnt (env w) = cnt (env w')"
    using poll_loop_simulation [OF assms(1,2)] assms(3,4) unfolding wait_for_condition_def
    by fastforce
  have "k \<le> nat ((?T + timer_delay ?I - 1) div timer_delay ?I)"
    using poll_inv_calls_bound [OF poll_reachable_inv [OF r]] by simp
  with c show ?thesis by simp
qed

text \<open>C20. Liveness of the loop's control: from the initial state, the moves of the
  machine that change the program point (all but the passing of time before a check) form
  a well-founded relation, so no run moves control forever; as every state that is not
  final has such a move (\<open>poll_machine_progress\<close>), a run that keeps moving control
  reaches a final state.\<close>

theorem poll_control_terminates:
  "wf {(s', s). poll_reachable timeout interval start s \<and> poll_step timeout interval start s s' \<and>
               pc s' \<noteq> pc s}"
proof (rule wf_subset [OF wf_measure [of "control_measure timeout interval"]])
  show "{(s', s). poll_reachable timeout interval start s \<and> poll_step timeout interval start s s' \<and>
          pc s' \<noteq> pc s} \<subseteq> measure (control_measure timeout interval)"
  proof clarify
    fix s s'
    assume r: "poll_reachable timeout interval start s" and st: "poll_step timeout interval start s s'"
      and m: "pc s' \<noteq> pc s"
    have "poll_reachable timeout interval start s'" using r st by (rule poll_reachable.step)
    then have "calls s' \<le> nat ((timeout + timer_delay interval - 1) div timer_delay interval)"
      by (rule poll_inv_calls_bound [OF poll_reachable_inv])
    with st m show "(s', s) \<in> measure (control_measure timeout interval)"
      by (simp add: poll_step_control_decreases)
  qed
qed
section \<open>Witnesses\<close>

lemma counter_counts_calls: "counts_calls id (counter_true_at n) exact_timer"
  by (simp add: counts_calls_def counter_true_at_def exact_timer_def)

theorem poll_calls_bound_witness:
  "calls \<lparr>pc = Finished (Inl TimeoutExceeded), now = 200, calls = 4\<rparr>
   \<le> nat ((200 + timer_delay 50 - 1) div timer_delay 50)"
proof -
  have d: "timer_delay 50 = 50" by (simp add: timer_delay_def TIMEOUT_MAX_def)
  have "poll_reachable 200 50 0 \<lparr>pc = AtCheck, now = 0, calls = 0\<rparr>"
    using poll_reachable.init by (simp add: poll_init_def)
  then have "poll_reachable 200 50 0 \<lparr>pc = AtCheck, now = 50, calls = Suc 0\<rparr>"
    by (rule reach_iteration [where v = "JBool False"]) (simp_all add: d)
  then have "poll_reachable 200 50 0 \<lparr>pc = AtCheck, now = 100, calls = Suc (Suc 0)\<rparr>"
    by (rule reach_iteration [where v = "JBool False"]) (simp_all add: d)
  then have "poll_reachable 200 50 0 \<lparr>pc = AtCheck, now = 150, calls = Suc (Suc (Suc 0))\<rparr>"
    by (rule reach_iteration [where v = "JBool False"]) (simp_all add: d)
  then have "poll_reachable 200 50 0 \<lparr>pc = AtCheck, now = 200, calls = Suc (Suc (Suc (Suc 0)))\<rparr>"
    by (rule reach_iteration [where v = "JBool False"]) (simp_all add: d)
  then have "poll_reachable 200 50 0
      \<lparr>pc = Finished (Inl TimeoutExceeded), now = 200, calls = Suc (Suc (Suc (Suc 0)))\<rparr>"
    by (rule reach_exit) simp
  from poll_calls_bound [OF this] show ?thesis by (simp add: numeral_eq_Suc)
qed


theorem wait_for_condition_calls_bound_witness:
  "id (env \<lparr>clock = 200::int, env = 4::nat\<rparr>) - id (env \<lparr>clock = 0::int, env = 0::nat\<rparr>) \<le>
    nat ((default_arg 5000 (Some 200) + timer_delay (default_arg 100 (Some 50)) - 1)
         div timer_delay (default_arg 100 (Some 50)))"
  by (rule wait_for_condition_calls_bound
        [OF counter_true_at_monotone [of 1000] exact_timer_sound counter_counts_calls [of 1000]])
     (simp add: wait_for_condition_def poll_loop.simps fixture_defs)

end
