(* ===== verification/Calendar.thy ===== *)
theory Calendar
  imports Prelude
begin

text \<open>
  The calendar arithmetic of ECMA-262 (section Date Objects) that
  \<^verbatim>\<open>Date.prototype.toISOString\<close> rests on: \<open>DayFromYear\<close>, \<open>InLeapYear\<close>,
  and the month table behind \<open>MonthFromTime\<close> and \<open>DateFromTime\<close>. Day
  numbers count from 1970-01-01 (day 0) and may be negative; months are numbered
  from 0 as in the specification. The lemmas show that consecutive years are 365 or
  366 days apart, that \<open>DayFromYear\<close> is monotone, and that the month table splits
  every day of a year into a month and a date of 1 to 31.
\<close>

definition day_from_year :: "int \<Rightarrow> int" where
  "day_from_year y = 365 * (y - 1970) + (y - 1969) div 4 - (y - 1901) div 100 + (y - 1601) div 400"

definition in_leap_year :: "int \<Rightarrow> bool" where
  "in_leap_year y \<longleftrightarrow> y mod 4 = 0 \<and> (y mod 100 \<noteq> 0 \<or> y mod 400 = 0)"

definition leap_days :: "int \<Rightarrow> int" where
  "leap_days y = (if in_leap_year y then 1 else 0)"

text \<open>The day within the year on which month \<open>m\<close> starts, \<open>l\<close> being 1 in a leap
  year and 0 otherwise.\<close>

definition month_start :: "int \<Rightarrow> int \<Rightarrow> int" where
  "month_start l m = [0, 31, 59 + l, 90 + l, 120 + l, 151 + l, 181 + l, 212 + l, 243 + l,
                      273 + l, 304 + l, 334 + l] ! nat m"

text \<open>\<open>MonthFromTime\<close>, read off the day within the year as the specification's
  chain of ranges.\<close>

definition month_from_day :: "int \<Rightarrow> int \<Rightarrow> int" where
  "month_from_day l dy =
     (if dy < 31 then 0 else if dy < 59 + l then 1 else if dy < 90 + l then 2
      else if dy < 120 + l then 3 else if dy < 151 + l then 4 else if dy < 181 + l then 5
      else if dy < 212 + l then 6 else if dy < 243 + l then 7 else if dy < 273 + l then 8
      else if dy < 304 + l then 9 else if dy < 334 + l then 10 else 11)"

text \<open>\<open>DateFromTime\<close>: the day within the month, from 1.\<close>

definition date_from_day :: "int \<Rightarrow> int \<Rightarrow> int" where
  "date_from_day l dy = dy - month_start l (month_from_day l dy) + 1"

lemma day_from_year_step:
  "day_from_year y + 1 \<le> day_from_year (y + 1) \<and> day_from_year (y + 1) \<le> day_from_year y + 367"
proof -
  have k: "1 < (4::int)" "1 < (100::int)" "1 < (400::int)" by simp_all
  obtain a b c a' b' c' where
    "(y - 1969) div 4 = a" "(y + 1 - 1969) div 4 = a'" "(y - 1901) div 100 = b"
    "(y + 1 - 1901) div 100 = b'" "(y - 1601) div 400 = c" "(y + 1 - 1601) div 400 = c'" by blast
  moreover have "a \<le> a' \<and> a' \<le> a + 1" "b \<le> b' \<and> b' \<le> b + 1" "c \<le> c' \<and> c' \<le> c + 1"
    using div_succ_bounds [OF k(1), of "y - 1969"] div_succ_bounds [OF k(2), of "y - 1901"]
      div_succ_bounds [OF k(3), of "y - 1601"] calculation unfolding diff_add_eq by simp_all
  ultimately show ?thesis
    unfolding day_from_year_def by simp
qed

lemma days_in_year:
  "day_from_year (y + 1) = day_from_year y + 365 + leap_days y"
proof -
  have a: "(y + 1 - 1969) div 4 = (y - 1969) div 4 + (if 4 dvd y then 1 else 0)"
    using div_succ_step [of 4 "y - 1969"] dvd_shift [of 4 1968 y] by (simp add: algebra_simps)
  have b: "(y + 1 - 1901) div 100 = (y - 1901) div 100 + (if 100 dvd y then 1 else 0)"
    using div_succ_step [of 100 "y - 1901"] dvd_shift [of 100 1900 y] by (simp add: algebra_simps)
  have c: "(y + 1 - 1601) div 400 = (y - 1601) div 400 + (if 400 dvd y then 1 else 0)"
    using div_succ_step [of 400 "y - 1601"] dvd_shift [of 400 1600 y] by (simp add: algebra_simps)
  have "100 dvd y \<Longrightarrow> 4 dvd y" "400 dvd y \<Longrightarrow> 100 dvd y"
    using dvd_trans [of 4 100 y] dvd_trans [of 100 400 y] by simp_all
  then show ?thesis
    unfolding day_from_year_def a b c leap_days_def in_leap_year_def dvd_eq_mod_eq_0
    by (cases "y mod 4 = 0"; cases "y mod 100 = 0"; cases "y mod 400 = 0") simp_all
qed

lemma day_from_year_mono_nat: "day_from_year y \<le> day_from_year (y + int n)"
proof (induction n)
  case (Suc n)
  have "day_from_year (y + int n) \<le> day_from_year (y + int n + 1)"
    using day_from_year_step [of "y + int n"] by simp
  moreover have "y + int (Suc n) = y + int n + 1" by simp
  ultimately show ?case using Suc.IH by (metis order_trans)
qed simp

lemma day_from_year_mono: "a \<le> b \<Longrightarrow> day_from_year a \<le> day_from_year b"
  using day_from_year_mono_nat [of a "nat (b - a)"] by simp

lemma leap_days_cases: "leap_days y = 0 \<or> leap_days y = 1"
  by (simp add: leap_days_def)

lemma month_from_day_bounds:
  assumes "l = 0 \<or> l = 1" and "0 \<le> dy" and "dy < 365 + l"
  shows "0 \<le> month_from_day l dy \<and> month_from_day l dy \<le> 11 \<and>
         month_start l (month_from_day l dy) \<le> dy \<and> dy < month_start l (month_from_day l dy) + 31"
  using assms by (auto simp: month_from_day_def month_start_def)

end
