(* ===== verification/IsoDate.thy ===== *)
theory IsoDate
  imports Calendar
begin

text \<open>
  \<^verbatim>\<open>new Date().toISOString()\<close>, called at lines 33 and 45 of
  \<^verbatim>\<open>test-helper.js\<close>: the ECMAScript format
  \<^verbatim>\<open>YYYY-MM-DDTHH:mm:ss.sssZ\<close> of a time value in milliseconds (ECMA-262
  Date Time String Format), with the expanded year \<^verbatim>\<open>+YYYYYY\<close> or
  \<^verbatim>\<open>-YYYYYY\<close> outside years 0--9999. Days since the epoch and the time of day
  use floor division, as the specification's \<open>Day(t)\<close> and \<open>TimeWithinDay(t)\<close>
  do; the year, month and date are the specification's \<open>YearFromTime\<close>,
  \<open>MonthFromTime\<close> and \<open>DateFromTime\<close> over the arithmetic of \<open>Calendar\<close>.
  This is the runtime's function, modelled from its specification; its values at concrete
  times are evaluated in the scenarios of \<open>Console\<close> and \<open>Screenshot\<close>. The second
  half reads the string back (\<open>parse_stamp\<close>) and shows the round trip on years
  0--9999.
\<close>

section \<open>Digits\<close>

definition digit_table :: string where
  "digit_table = ''0123456789''"

definition digit_char :: "nat \<Rightarrow> char" where
  "digit_char n = digit_table ! n"

definition decimal_digits :: "char set" where
  "decimal_digits = set digit_table"

fun decimal :: "nat \<Rightarrow> string" where
  "decimal n = (if n < 10 then [digit_char n] else decimal (n div 10) @ [digit_char (n mod 10)])"

declare decimal.simps [simp del]

text \<open>\<^verbatim>\<open>String(n).padStart(width, "0")\<close>: never truncates.\<close>

definition zero_pad :: "nat \<Rightarrow> nat \<Rightarrow> string" where
  "zero_pad width n = (let s = decimal n in replicate (width - length s) (CHR ''0'') @ s)"

section \<open>Calendar\<close>

definition ms_per_day :: ms where
  "ms_per_day = 86400000"

text \<open>\<open>YearFromTime\<close>: the largest year whose first day is not after day \<open>z\<close>,
  searched from an estimate by steps of one year. The search stops because the first
  days of consecutive years are 1 to 367 days apart (\<open>day_from_year_step\<close>).\<close>

function year_search :: "int \<Rightarrow> int \<Rightarrow> int" where
  "year_search z y =
     (if z < day_from_year y then year_search z (y - 1)
      else if day_from_year (y + 1) \<le> z then year_search z (y + 1)
      else y)"
  by auto
termination
proof (relation "measure (\<lambda>(z, y). if z < day_from_year y then 368 + nat (day_from_year y - z)
                                    else nat (z - day_from_year y))")
  show "wf (measure (\<lambda>(z, y). if z < day_from_year y then 368 + nat (day_from_year y - z)
                               else nat (z - day_from_year y)))" by simp
  show "((z, y - 1), z, y) \<in> measure (\<lambda>(z, y). if z < day_from_year y then 368 + nat (day_from_year y - z)
                               else nat (z - day_from_year y))" if "z < day_from_year y" for z y
    using that day_from_year_step [of "y - 1"] by auto
  show "((z, y + 1), z, y) \<in> measure (\<lambda>(z, y). if z < day_from_year y then 368 + nat (day_from_year y - z)
                               else nat (z - day_from_year y))"
    if "\<not> z < day_from_year y" "day_from_year (y + 1) \<le> z" for z y
    using that day_from_year_step [of y] by auto
qed

definition year_from_day :: "int \<Rightarrow> int" where
  "year_from_day z = year_search z (1970 + 400 * z div 146097)"

text \<open>Year, month (from 1) and date of a day number.\<close>

definition civil_from_days :: "int \<Rightarrow> int \<times> int \<times> int" where
  "civil_from_days z =
     (let y = year_from_day z; l = leap_days y; dy = z - day_from_year y
      in (y, month_from_day l dy + 1, date_from_day l dy))"

section \<open>The string\<close>

definition iso_year :: "int \<Rightarrow> string" where
  "iso_year y =
     (if 0 \<le> y \<and> y \<le> 9999 then zero_pad 4 (nat y)
      else (if y < 0 then CHR ''-'' else CHR ''+'') # zero_pad 6 (nat \<bar>y\<bar>))"

definition to_iso_string :: "ms \<Rightarrow> string" where
  "to_iso_string t =
     (let tod = t mod ms_per_day in
      case civil_from_days (t div ms_per_day) of (y, m, d) \<Rightarrow>
        iso_year y @ ''-'' @ zero_pad 2 (nat m) @ ''-'' @ zero_pad 2 (nat d) @ ''T'' @
        zero_pad 2 (nat (tod div 3600000)) @ '':'' @ zero_pad 2 (nat (tod div 60000 mod 60)) @ '':'' @
        zero_pad 2 (nat (tod div 1000 mod 60)) @ ''.'' @ zero_pad 3 (nat (tod mod 1000)) @ ''Z'')"

section \<open>Reading a timestamp back\<close>

text \<open>The inverse of the printing, used to state that no two instants print alike: the
  day number of a year, month and date, a reader of fixed-width decimal fields, and a
  reader of the 24 characters \<^verbatim>\<open>YYYY-MM-DDTHH:mm:ss.sssZ\<close> that takes the
  fields at their positions.\<close>

definition days_from_civil :: "int \<Rightarrow> int \<Rightarrow> int \<Rightarrow> int" where
  "days_from_civil y m d = day_from_year y + month_start (leap_days y) (m - 1) + d - 1"

fun position :: "'a \<Rightarrow> 'a list \<Rightarrow> nat" where
  "position x [] = 0"
| "position x (y # ys) = (if x = y then 0 else Suc (position x ys))"

definition parse_digits :: "string \<Rightarrow> nat option" where
  "parse_digits cs =
     (if cs \<noteq> [] \<and> list_all (\<lambda>c. c \<in> decimal_digits) cs
      then Some (foldl (\<lambda>n c. 10 * n + position c digit_table) 0 cs) else None)"

definition field :: "nat \<Rightarrow> nat \<Rightarrow> string \<Rightarrow> int option" where
  "field i w s = map_option int (parse_digits (take w (drop i s)))"

definition parse_stamp :: "string \<Rightarrow> ms option" where
  "parse_stamp s =
     (if length s \<noteq> 24 then None else
      case (field 0 4 s, field 5 2 s, field 8 2 s, field 11 2 s, field 14 2 s, field 17 2 s,
            field 20 3 s) of
        (Some y, Some m, Some d, Some h, Some mi, Some se, Some f) \<Rightarrow>
          Some (days_from_civil y m d * ms_per_day + h * 3600000 + mi * 60000 + se * 1000 + f)
      | _ \<Rightarrow> None)"

section \<open>Which characters occur\<close>

lemma digit_char_mem: "n < 10 \<Longrightarrow> digit_char n \<in> decimal_digits"
  unfolding digit_char_def decimal_digits_def by (rule nth_mem) (simp add: digit_table_def)

lemma set_decimal: "set (decimal n) \<subseteq> decimal_digits"
proof (induction n rule: decimal.induct)
  case (1 n)
  show ?case
  proof (cases "n < 10")
    case True
    then show ?thesis by (simp add: decimal.simps [of n] digit_char_mem)
  next
    case False
    with "1.IH" show ?thesis by (simp add: decimal.simps [of n] digit_char_mem)
  qed
qed

lemma zero_digit: "CHR ''0'' \<in> decimal_digits"
  by (simp add: decimal_digits_def digit_table_def)

lemma non_digits:
  "CHR ''-'' \<notin> decimal_digits" "CHR ''+'' \<notin> decimal_digits" "CHR ''T'' \<notin> decimal_digits"
  "CHR '':'' \<notin> decimal_digits" "CHR ''.'' \<notin> decimal_digits" "CHR ''Z'' \<notin> decimal_digits"
  by (simp_all add: decimal_digits_def digit_table_def)

lemma set_zero_pad: "set (zero_pad w n) \<subseteq> decimal_digits"
  using set_decimal [of n] zero_digit by (auto simp: zero_pad_def Let_def)

lemma set_iso_year: "set (iso_year y) \<subseteq> decimal_digits \<union> {CHR ''-'', CHR ''+''}"
  using set_zero_pad by (auto simp: iso_year_def)

lemma set_to_iso_string:
  "set (to_iso_string t) \<subseteq>
     decimal_digits \<union> {CHR ''-'', CHR ''+'', CHR ''T'', CHR '':'', CHR ''.'', CHR ''Z''}"
proof -
  obtain y m d where c: "civil_from_days (t div ms_per_day) = (y, m, d)" by (metis prod_cases3)
  show ?thesis
    unfolding to_iso_string_def Let_def c prod.case set_append
    using set_zero_pad set_iso_year [of y] by auto
qed

lemma iso_year_no_plus: "0 \<le> y \<Longrightarrow> y \<le> 9999 \<Longrightarrow> CHR ''+'' \<notin> set (iso_year y)"
  using set_zero_pad [of 4 "nat y"] non_digits(2) by (auto simp: iso_year_def)

section \<open>Printing and reading back\<close>

lemma year_search_bounds:
  "day_from_year (year_search z y) \<le> z \<and> z < day_from_year (year_search z y + 1)"
proof (induction z y rule: year_search.induct)
  case (1 z y)
  then show ?case by (subst year_search.simps) (simp add: not_less)
qed

lemma year_from_day_bounds:
  "day_from_year (year_from_day z) \<le> z \<and> z < day_from_year (year_from_day z + 1)"
  unfolding year_from_day_def by (rule year_search_bounds)

lemma year_from_day_range:
  assumes "day_from_year 0 \<le> z" and "z < day_from_year 10000"
  shows "0 \<le> year_from_day z \<and> year_from_day z \<le> 9999"
proof -
  have b: "day_from_year (year_from_day z) \<le> z" "z < day_from_year (year_from_day z + 1)"
    using year_from_day_bounds [of z] by simp_all
  have "0 \<le> year_from_day z"
  proof (rule ccontr)
    assume "\<not> 0 \<le> year_from_day z"
    then have "day_from_year (year_from_day z + 1) \<le> day_from_year 0" by (simp add: day_from_year_mono)
    with b(2) assms(1) show False by simp
  qed
  moreover have "year_from_day z \<le> 9999"
  proof (rule ccontr)
    assume "\<not> year_from_day z \<le> 9999"
    then have "day_from_year 10000 \<le> day_from_year (year_from_day z)" by (simp add: day_from_year_mono)
    with b(1) assms(2) show False by simp
  qed
  ultimately show ?thesis by simp
qed

lemma civil_from_days_fields:
  assumes "civil_from_days z = (y, m, d)"
  shows "1 \<le> m \<and> m \<le> 12 \<and> 1 \<le> d \<and> d \<le> 31 \<and> y = year_from_day z \<and> days_from_civil y m d = z"
proof -
  let ?l = "leap_days y" and ?dy = "z - day_from_year y"
  have y: "y = year_from_day z" and m: "m = month_from_day ?l ?dy + 1" and d: "d = date_from_day ?l ?dy"
    using assms by (auto simp: civil_from_days_def Let_def)
  have "0 \<le> ?dy" "?dy < 365 + ?l"
    using year_from_day_bounds [of z] days_in_year [of y] unfolding y by simp_all
  with leap_days_cases [of y] have "0 \<le> month_from_day ?l ?dy \<and> month_from_day ?l ?dy \<le> 11 \<and>
      month_start ?l (month_from_day ?l ?dy) \<le> ?dy \<and> ?dy < month_start ?l (month_from_day ?l ?dy) + 31"
    by (rule month_from_day_bounds)
  then show ?thesis
    unfolding m d y date_from_day_def days_from_civil_def by simp
qed

lemma position_nth: "distinct xs \<Longrightarrow> i < length xs \<Longrightarrow> position (xs ! i) xs = i"
proof (induction xs arbitrary: i)
  case (Cons x xs)
  then show ?case by (cases i) (auto simp: nth_mem)
qed simp

lemma position_digit_char: "n < 10 \<Longrightarrow> position (digit_char n) digit_table = n"
  unfolding digit_char_def by (rule position_nth) (simp_all add: digit_table_def)

lemma decimal_value:
  "foldl (\<lambda>n c. 10 * n + position c digit_table) 0 (decimal n) = n"
proof (induction n rule: decimal.induct)
  case (1 n)
  show ?case
  proof (cases "n < 10")
    case True
    then show ?thesis by (simp add: decimal.simps [of n] position_digit_char)
  next
    case False
    with "1.IH" show ?thesis by (simp add: decimal.simps [of n] position_digit_char)
  qed
qed

lemma decimal_nonempty: "decimal n \<noteq> []"
  by (simp add: decimal.simps [of n])

lemma parse_digits_zero_pad: "parse_digits (zero_pad w n) = Some n"
proof -
  have z: "foldl (\<lambda>n c. 10 * n + position c digit_table) 0 (replicate k (CHR ''0'')) = 0" for k
    by (induction k) (simp_all add: digit_table_def)
  have "list_all (\<lambda>c. c \<in> decimal_digits) (zero_pad w n)"
    using set_zero_pad [of w n] unfolding list_all_iff by blast
  then show ?thesis
    by (simp add: parse_digits_def zero_pad_def Let_def decimal_nonempty z decimal_value)
qed

lemma length_decimal: "n < 10 ^ w \<Longrightarrow> 0 < w \<Longrightarrow> length (decimal n) \<le> w"
proof (induction n arbitrary: w rule: decimal.induct)
  case (1 n)
  show ?case
  proof (cases "n < 10")
    case True
    with "1.prems" show ?thesis by (simp add: decimal.simps [of n])
  next
    case False
    with "1.prems" have "w \<noteq> 1" by auto
    with "1.prems" have "1 < w" by simp
    with "1.prems" have "n div 10 < 10 ^ (w - 1)"
      by (metis Suc_diff_1 less_mult_imp_div_less power_Suc2 zero_less_one order.strict_trans)
    then have "length (decimal (n div 10)) \<le> w - 1"
      using "1.IH" False \<open>1 < w\<close> by simp
    with False \<open>1 < w\<close> show ?thesis by (simp add: decimal.simps [of n])
  qed
qed

lemma length_zero_pad: "n < 10 ^ w \<Longrightarrow> 0 < w \<Longrightarrow> length (zero_pad w n) = w"
  using length_decimal [of n w] by (simp add: zero_pad_def Let_def)


lemma parse_stamp_layout:
  assumes "length Y = 4" "length M = 2" "length D = 2" "length H = 2" "length I = 2"
    "length S = 2" "length F = 3"
  and "map_option int (parse_digits Y) = Some y" "map_option int (parse_digits M) = Some m"
    "map_option int (parse_digits D) = Some d" "map_option int (parse_digits H) = Some h"
    "map_option int (parse_digits I) = Some i" "map_option int (parse_digits S) = Some s"
    "map_option int (parse_digits F) = Some f"
  shows "parse_stamp (Y @ c1 # M @ c2 # D @ c3 # H @ c4 # I @ c5 # S @ c6 # F @ [c7]) =
         Some (days_from_civil y m d * ms_per_day + h * 3600000 + i * 60000 + s * 1000 + f)"
proof -
  have "field 0 4 (Y @ c1 # M @ c2 # D @ c3 # H @ c4 # I @ c5 # S @ c6 # F @ [c7]) = Some y"
    "field 5 2 (Y @ c1 # M @ c2 # D @ c3 # H @ c4 # I @ c5 # S @ c6 # F @ [c7]) = Some m"
    "field 8 2 (Y @ c1 # M @ c2 # D @ c3 # H @ c4 # I @ c5 # S @ c6 # F @ [c7]) = Some d"
    "field 11 2 (Y @ c1 # M @ c2 # D @ c3 # H @ c4 # I @ c5 # S @ c6 # F @ [c7]) = Some h"
    "field 14 2 (Y @ c1 # M @ c2 # D @ c3 # H @ c4 # I @ c5 # S @ c6 # F @ [c7]) = Some i"
    "field 17 2 (Y @ c1 # M @ c2 # D @ c3 # H @ c4 # I @ c5 # S @ c6 # F @ [c7]) = Some s"
    "field 20 3 (Y @ c1 # M @ c2 # D @ c3 # H @ c4 # I @ c5 # S @ c6 # F @ [c7]) = Some f"
    using assms by (simp_all add: field_def)
  moreover have "length (Y @ c1 # M @ c2 # D @ c3 # H @ c4 # I @ c5 # S @ c6 # F @ [c7]) = 24"
    using assms(1-7) by simp
  ultimately show ?thesis by (simp add: parse_stamp_def)
qed

lemma time_of_day_split:
  fixes tod :: int
  assumes "0 \<le> tod"
  shows "tod div 3600000 * 3600000 + tod div 60000 mod 60 * 60000 + tod div 1000 mod 60 * 1000 +
         tod mod 1000 = tod"
proof -
  have a: "tod div 60000 = tod div 1000 div 60" and b: "tod div 3600000 = tod div 60000 div 60"
    using zdiv_zmult2_eq [where a = tod and b = 1000 and c = 60]
      zdiv_zmult2_eq [where a = tod and b = 60000 and c = 60] by simp_all
  have "tod = tod div 1000 * 1000 + tod mod 1000" by simp
  moreover have "tod div 1000 = tod div 60000 * 60 + tod div 1000 mod 60" unfolding a by simp
  moreover have "tod div 60000 = tod div 3600000 * 60 + tod div 60000 mod 60" unfolding b by simp
  ultimately show ?thesis by linarith
qed

lemma iso_string_layout:
  assumes "0 \<le> year_from_day (t div ms_per_day)" "year_from_day (t div ms_per_day) \<le> 9999"
    and "civil_from_days (t div ms_per_day) = (y, m, d)"
  shows "to_iso_string t =
    zero_pad 4 (nat y) @ CHR ''-'' # zero_pad 2 (nat m) @ CHR ''-'' # zero_pad 2 (nat d) @
    CHR ''T'' # zero_pad 2 (nat (t mod ms_per_day div 3600000)) @
    CHR '':'' # zero_pad 2 (nat (t mod ms_per_day div 60000 mod 60)) @
    CHR '':'' # zero_pad 2 (nat (t mod ms_per_day div 1000 mod 60)) @
    CHR ''.'' # zero_pad 3 (nat (t mod ms_per_day mod 1000)) @ [CHR ''Z'']"
  using assms civil_from_days_fields [OF assms(3)]
  by (simp add: to_iso_string_def iso_year_def Let_def)

lemma zero_pad_field:
  fixes x :: int
  assumes "0 \<le> x" "x < 10 ^ w" "0 < w"
  shows "length (zero_pad w (nat x)) = w \<and> map_option int (parse_digits (zero_pad w (nat x))) = Some x"
proof -
  have "nat x < 10 ^ w" using assms(1,2) by (simp add: nat_less_iff)
  then show ?thesis using assms(1,3) by (simp add: length_zero_pad parse_digits_zero_pad)
qed

lemma iso_fields:
  assumes "0 \<le> year_from_day (t div ms_per_day)" "year_from_day (t div ms_per_day) \<le> 9999"
    and "civil_from_days (t div ms_per_day) = (y, m, d)"
  shows "parse_stamp (zero_pad 4 (nat y) @ c1 # zero_pad 2 (nat m) @ c2 # zero_pad 2 (nat d) @
    c3 # zero_pad 2 (nat (t mod ms_per_day div 3600000)) @
    c4 # zero_pad 2 (nat (t mod ms_per_day div 60000 mod 60)) @
    c5 # zero_pad 2 (nat (t mod ms_per_day div 1000 mod 60)) @
    c6 # zero_pad 3 (nat (t mod ms_per_day mod 1000)) @ [c7]) = Some t"
proof -
  let ?tod = "t mod ms_per_day"
  have f: "1 \<le> m" "m \<le> 12" "1 \<le> d" "d \<le> 31" "y = year_from_day (t div ms_per_day)"
    "days_from_civil y m d = t div ms_per_day"
    using civil_from_days_fields [OF assms(3)] by blast+
  have tod: "0 \<le> ?tod" "?tod < 86400000" by (simp_all add: ms_per_day_def)
  have fy: "length (zero_pad 4 (nat y)) = 4 \<and> map_option int (parse_digits (zero_pad 4 (nat y))) = Some y"
    using assms(1,2) f(5) by (intro zero_pad_field) simp_all
  have fm: "length (zero_pad 2 (nat m)) = 2 \<and> map_option int (parse_digits (zero_pad 2 (nat m))) = Some m"
    using f(1,2) by (intro zero_pad_field) simp_all
  have fd: "length (zero_pad 2 (nat d)) = 2 \<and> map_option int (parse_digits (zero_pad 2 (nat d))) = Some d"
    using f(3,4) by (intro zero_pad_field) simp_all
  have fh: "length (zero_pad 2 (nat (?tod div 3600000))) = 2 \<and>
      map_option int (parse_digits (zero_pad 2 (nat (?tod div 3600000)))) = Some (?tod div 3600000)"
    using tod by (intro zero_pad_field) simp_all
  have fi: "length (zero_pad 2 (nat (?tod div 60000 mod 60))) = 2 \<and>
      map_option int (parse_digits (zero_pad 2 (nat (?tod div 60000 mod 60)))) = Some (?tod div 60000 mod 60)"
    by (intro zero_pad_field) simp_all
  have fs: "length (zero_pad 2 (nat (?tod div 1000 mod 60))) = 2 \<and>
      map_option int (parse_digits (zero_pad 2 (nat (?tod div 1000 mod 60)))) = Some (?tod div 1000 mod 60)"
    by (intro zero_pad_field) simp_all
  have ff: "length (zero_pad 3 (nat (?tod mod 1000))) = 3 \<and>
      map_option int (parse_digits (zero_pad 3 (nat (?tod mod 1000)))) = Some (?tod mod 1000)"
    by (intro zero_pad_field) simp_all
  have "parse_stamp (zero_pad 4 (nat y) @ c1 # zero_pad 2 (nat m) @ c2 # zero_pad 2 (nat d) @
    c3 # zero_pad 2 (nat (?tod div 3600000)) @ c4 # zero_pad 2 (nat (?tod div 60000 mod 60)) @
    c5 # zero_pad 2 (nat (?tod div 1000 mod 60)) @ c6 # zero_pad 3 (nat (?tod mod 1000)) @ [c7]) =
    Some (days_from_civil y m d * ms_per_day + ?tod div 3600000 * 3600000 +
          ?tod div 60000 mod 60 * 60000 + ?tod div 1000 mod 60 * 1000 + ?tod mod 1000)"
    by (rule parse_stamp_layout) (use fy fm fd fh fi fs ff in blast)+
  also have "\<dots> = Some t"
    using time_of_day_split [OF tod(1)] f(6) by (simp add: algebra_simps)
  finally show ?thesis .
qed

lemma iso_range:
  assumes "-62167219200000 \<le> t" and "t < 253402300800000"
  shows "0 \<le> year_from_day (t div ms_per_day) \<and> year_from_day (t div ms_per_day) \<le> 9999"
proof (rule year_from_day_range)
  have "-719528 * ms_per_day div ms_per_day \<le> t div ms_per_day"
    using assms(1) by (intro zdiv_mono1) (simp_all add: ms_per_day_def)
  then show "day_from_year 0 \<le> t div ms_per_day" by (simp add: day_from_year_def ms_per_day_def)
  have "t div ms_per_day * ms_per_day \<le> t" by (simp add: ms_per_day_def)
  with assms(2) have "t div ms_per_day < 2932897" by (simp add: ms_per_day_def)
  then show "t div ms_per_day < day_from_year 10000" by (simp add: day_from_year_def)
qed

text \<open>Round trip of \<^verbatim>\<open>toISOString\<close>: for every time value whose year lies
  in 0--9999 (from \<^verbatim>\<open>0000-01-01T00:00:00.000Z\<close> to
  \<^verbatim>\<open>9999-12-31T23:59:59.999Z\<close>), reading the 24-character string back field by
  field gives the time value itself; hence distinct instants print distinct strings.\<close>

lemma to_iso_string_roundtrip:
  assumes "-62167219200000 \<le> t" and "t < 253402300800000"
  shows "parse_stamp (to_iso_string t) = Some t"
proof -
  obtain y m d where c: "civil_from_days (t div ms_per_day) = (y, m, d)" by (metis prod_cases3)
  from iso_range [OF assms] have r: "0 \<le> year_from_day (t div ms_per_day)" "year_from_day (t div ms_per_day) \<le> 9999"
    by simp_all
  show ?thesis unfolding iso_string_layout [OF r c] by (rule iso_fields [OF r c])
qed

end
