(* ===== verification/Session.thy ===== *)
theory Session
  imports IsoDate JsValue
begin

text \<open>
  The state the two browser-session helpers act on, shared by their theories: the
  listeners registered on the Playwright \<^verbatim>\<open>page\<close> with \<^verbatim>\<open>page.on\<close> (in
  registration order), the JavaScript heap of the arrays that
  \<^verbatim>\<open>captureConsoleLogs\<close> allocates (an array's address is its index), the files
  of the working directory, and the lines written to standard output. The clock of the
  enclosing \<open>world\<close> is what \<^verbatim>\<open>new Date()\<close> reads.
\<close>

text \<open>An element pushed at line 30: the object literal of lines 30--34.\<close>

record log_entry =
  entry_type :: string
  entry_text :: string
  entry_timestamp :: string

text \<open>What Playwright passes to a \<^verbatim>\<open>"console"\<close> listener: \<^verbatim>\<open>msg.type()\<close> and
  \<^verbatim>\<open>msg.text()\<close>.\<close>

record console_message =
  msg_type :: string
  msg_text :: string

text \<open>The closures this file registers: the arrow function of lines 29--35, which
  captures the address of its \<^verbatim>\<open>logs\<close> array.\<close>

datatype listener = PushLog nat

fun listener_addr :: "listener \<Rightarrow> nat" where
  "listener_addr (PushLog a) = a"

text \<open>A captured page image, and the line of line 48 (a fixed prefix and the file
  name).\<close>

datatype image = Image nat

datatype output_line = ScreenshotSaved string

record session =
  listeners :: "(string \<times> listener) list"
  arrays :: "log_entry list list"
  files :: "string \<rightharpoonup> image"
  stdout :: "output_line list"

type_synonym sworld = "session world"

text \<open>Well-formed: every closure is registered once and points at an allocated
  array.\<close>

definition wf_session :: "session \<Rightarrow> bool" where
  "wf_session s \<longleftrightarrow>
     distinct (map snd (listeners s)) \<and>
     (\<forall>l \<in> snd ` set (listeners s). listener_addr l < length (arrays s))"

end
