(* ===== verification/IsoOrder.thy ===== *)
theory IsoOrder
  imports IsoDate "HOL-Library.List_Lexorder" "HOL-Library.Char_ord"
begin

text \<open>
  The order of the strings of \<^verbatim>\<open>toISOString\<close>: for times in years 0--9999 the
  lexicographic order of the strings (characters ordered by code point) is the order of
  the times. The string is the seven fixed-width fields year, month, date, hours,
  minutes, seconds and milliseconds, each zero padded and followed by a separator
  (\<open>render_fields\<close>); equal-width zero-padded numbers compare as the numbers do,
  so rendering is monotone in the lexicographic order of the fields (\<open>time_fields\<close>),
  and that order follows the order of the times.
\<close>

fun render_fields :: "nat list \<Rightarrow> string \<Rightarrow> int list \<Rightarrow> string" where
  "render_fields (w # ws) (c # cs) (x # xs) = zero_pad w (nat x) @ c # render_fields ws cs xs"
| "render_fields _ _ _ = []"

definition fits :: "nat list \<Rightarrow> int list \<Rightarrow> bool" where
  "fits ws xs \<longleftrightarrow> list_all2 (\<lambda>w x. 0 < w \<and> 0 \<le> x \<and> x < 10 ^ w) ws xs"

definition time_fields :: "ms \<Rightarrow> int list" where
  "time_fields t =
     (let tod = t mod ms_per_day in
      case civil_from_days (t div ms_per_day) of (y, m, d) \<Rightarrow>
        [y, m, d, tod div 3600000, tod div 60000 mod 60, tod div 1000 mod 60, tod mod 1000])"

lemma of_char_digit: "n < 10 \<Longrightarrow> of_char (digit_char n) = (48 + n :: nat)"
  by (auto simp: digit_char_def digit_table_def less_Suc_eq numeral_eq_Suc)

lemma digit_char_less: "i < 10 \<Longrightarrow> j < 10 \<Longrightarrow> digit_char i < digit_char j \<longleftrightarrow> i < j"
  by (simp add: less_char_def of_char_digit)

lemma append_less_same_length:
  fixes a b :: "'a::linorder list"
  shows "length a = length b \<Longrightarrow> a @ x < b @ y \<longleftrightarrow> a < b \<or> a = b \<and> x < y"
proof (induction a b rule: list_induct2)
  case Nil then show ?case by simp
next
  case (Cons u a v b) then show ?case by (auto simp: Cons_less_Cons)
qed

lemma zero_pad_inj: "zero_pad w a = zero_pad w b \<longleftrightarrow> a = b"
  by (metis option.inject parse_digits_zero_pad)

lemma zero_pad_Suc:
  assumes "0 < w"
  shows "zero_pad (Suc w) n = zero_pad w (n div 10) @ [digit_char (n mod 10)]"
proof (cases "n < 10")
  case True
  have z: "digit_char 0 = CHR ''0''" by (simp add: digit_char_def digit_table_def)
  have "replicate (w - 1) (CHR ''0'') @ [CHR ''0''] = replicate w (CHR ''0'')"
    using assms by (metis Suc_diff_1 replicate_append_same replicate_Suc)
  with True z show ?thesis
    by (simp add: zero_pad_def Let_def decimal.simps [of n] decimal.simps [of 0])
next
  case False
  then show ?thesis
    by (simp add: zero_pad_def Let_def decimal.simps [of n])
qed

lemma divmod_less:
  fixes a b :: nat
  shows "a < b \<longleftrightarrow> a div 10 < b div 10 \<or> a div 10 = b div 10 \<and> a mod 10 < b mod 10"
proof -
  have ea: "a = a div 10 * 10 + a mod 10" and eb: "b = b div 10 * 10 + b mod 10" by simp_all
  have "a mod 10 < 10" "b mod 10 < 10" by simp_all
  have "a \<le> b \<Longrightarrow> a div 10 \<le> b div 10" by (rule div_le_mono)
  moreover have "b \<le> a \<Longrightarrow> b div 10 \<le> a div 10" by (rule div_le_mono)
  ultimately show ?thesis using ea eb \<open>a mod 10 < 10\<close> \<open>b mod 10 < 10\<close> by linarith
qed

lemma zero_pad_less:
  "a < 10 ^ Suc w \<Longrightarrow> b < 10 ^ Suc w \<Longrightarrow> zero_pad (Suc w) a < zero_pad (Suc w) b \<longleftrightarrow> a < b"
proof (induction w arbitrary: a b)
  case 0
  then show ?case
    by (simp add: zero_pad_def Let_def decimal.simps [of a] decimal.simps [of b] digit_char_less)
next
  case (Suc w)
  have l: "length (zero_pad (Suc w) (a div 10)) = length (zero_pad (Suc w) (b div 10))"
    using Suc.prems by (simp add: length_zero_pad less_mult_imp_div_less)
  have ab: "a div 10 < 10 ^ Suc w" "b div 10 < 10 ^ Suc w"
    using Suc.prems by (simp_all add: less_mult_imp_div_less)
  show ?case
    unfolding zero_pad_Suc [OF zero_less_Suc [of w]] append_less_same_length [OF l]
    using Suc.IH [OF ab] by (simp add: zero_pad_inj Cons_less_Cons digit_char_less divmod_less [of a b])
qed
lemma zero_pad_int_less:
  fixes x y :: int
  assumes "0 < w" "0 \<le> x" "x < 10 ^ w" "0 \<le> y" "y < 10 ^ w"
  shows "zero_pad w (nat x) < zero_pad w (nat y) \<longleftrightarrow> x < y"
proof -
  obtain v where w: "w = Suc v" using assms(1) by (cases w) auto
  have "nat x < 10 ^ Suc v" "nat y < 10 ^ Suc v"
    using assms(2-5) unfolding w by (simp_all add: nat_less_iff)
  then show ?thesis using assms(2,4) unfolding w by (simp add: zero_pad_less) linarith
qed

lemma render_fields_less:
  "fits ws xs \<Longrightarrow> fits ws ys \<Longrightarrow> length cs = length ws \<Longrightarrow> xs < ys \<Longrightarrow>
   render_fields ws cs xs < render_fields ws cs ys"
proof (induction ws arbitrary: cs xs ys)
  case Nil
  then show ?case by (simp add: fits_def)
next
  case (Cons w ws)
  obtain c cs' where cs: "cs = c # cs'" using Cons.prems(3) by (cases cs) auto
  obtain x xs' where xs: "xs = x # xs'" and fx: "0 < w" "0 \<le> x" "x < 10 ^ w" and fxs: "fits ws xs'"
    using Cons.prems(1) by (cases xs) (auto simp: fits_def)
  obtain y ys' where ys: "ys = y # ys'" and fy: "0 \<le> y" "y < 10 ^ w" and fys: "fits ws ys'"
    using Cons.prems(2) by (cases ys) (auto simp: fits_def)
  have l: "length (zero_pad w (nat x)) = length (zero_pad w (nat y))"
    using fx fy by (simp add: length_zero_pad nat_less_iff)
  show ?case
  proof (cases "x < y")
    case True
    then show ?thesis unfolding cs xs ys render_fields.simps append_less_same_length [OF l]
      using zero_pad_int_less [OF fx fy] by simp
  next
    case False
    with Cons.prems(4) have "x = y" "xs' < ys'" unfolding xs ys by (simp_all add: Cons_less_Cons)
    with Cons.IH [OF fxs fys] Cons.prems(3) show ?thesis
      unfolding cs xs ys render_fields.simps by (simp add: append_less_same_length)
  qed
qed

lemma iso_in_range:
  assumes "-62167219200000 \<le> t" and "t < 253402300800000"
  obtains y m d where "civil_from_days (t div ms_per_day) = (y, m, d)"
    "0 \<le> y" "y \<le> 9999" "1 \<le> m" "m \<le> 12" "1 \<le> d" "d \<le> 31"
    "y = year_from_day (t div ms_per_day)" "days_from_civil y m d = t div ms_per_day"
proof -
  obtain y m d where c: "civil_from_days (t div ms_per_day) = (y, m, d)" by (metis prod_cases3)
  have f: "1 \<le> m" "m \<le> 12" "1 \<le> d" "d \<le> 31" "y = year_from_day (t div ms_per_day)"
    "days_from_civil y m d = t div ms_per_day"
    using civil_from_days_fields [OF c] by blast+
  have "0 \<le> y" "y \<le> 9999" using iso_range [OF assms] f(5) by simp_all
  with that c f show ?thesis by blast
qed

lemma time_fields_render:
  assumes "-62167219200000 \<le> t" and "t < 253402300800000"
  shows "to_iso_string t = render_fields [4, 2, 2, 2, 2, 2, 3] ''--T::.Z'' (time_fields t)
    \<and> fits [4, 2, 2, 2, 2, 2, 3] (time_fields t)"
proof -
  obtain y m d where c: "civil_from_days (t div ms_per_day) = (y, m, d)"
    and b: "0 \<le> y" "y \<le> 9999" "1 \<le> m" "m \<le> 12" "1 \<le> d" "d \<le> 31"
    and yy: "y = year_from_day (t div ms_per_day)"
    using iso_in_range [OF assms] by metis
  have r: "0 \<le> year_from_day (t div ms_per_day)" "year_from_day (t div ms_per_day) \<le> 9999"
    using b yy by simp_all
  have tod: "0 \<le> t mod ms_per_day" "t mod ms_per_day < 86400000" by (simp_all add: ms_per_day_def)
  have h: "0 \<le> t mod ms_per_day div 3600000" "t mod ms_per_day div 3600000 < 24"
    using tod by simp_all
  have s: "x mod 60 < 100" for x :: int
  proof -
    have "x mod 60 < 60" by simp
    then show ?thesis by linarith
  qed
  show ?thesis
    unfolding iso_string_layout [OF r c] using b tod h s
    by (simp add: time_fields_def c Let_def fits_def)
qed

lemma year_from_day_mono:
  assumes "z1 \<le> z2"
  shows "year_from_day z1 \<le> year_from_day z2"
proof (rule ccontr)
  assume "\<not> year_from_day z1 \<le> year_from_day z2"
  then have "day_from_year (year_from_day z2 + 1) \<le> day_from_year (year_from_day z1)"
    by (simp add: day_from_year_mono)
  with year_from_day_bounds [of z1] year_from_day_bounds [of z2] assms show False by simp
qed

lemma month_from_day_mono: "dy1 \<le> dy2 \<Longrightarrow> month_from_day l dy1 \<le> month_from_day l dy2"
  unfolding month_from_day_def by (simp split: if_splits)

lemma civil_from_days_less:
  assumes "z1 < z2" and c1: "civil_from_days z1 = (y1, m1, d1)" and c2: "civil_from_days z2 = (y2, m2, d2)"
  shows "y1 < y2 \<or> y1 = y2 \<and> (m1 < m2 \<or> m1 = m2 \<and> d1 < d2)"
proof -
  have y: "y1 = year_from_day z1" "y2 = year_from_day z2"
    using c1 c2 by (auto simp: civil_from_days_def Let_def)
  have "y1 \<le> y2" unfolding y using assms(1) by (simp add: year_from_day_mono)
  moreover have "m1 < m2 \<or> m1 = m2 \<and> d1 < d2" if eq: "y1 = y2"
  proof -
    let ?l = "leap_days y1"
    have m: "m1 = month_from_day ?l (z1 - day_from_year y1) + 1"
      "m2 = month_from_day ?l (z2 - day_from_year y1) + 1"
      and d: "d1 = date_from_day ?l (z1 - day_from_year y1)" "d2 = date_from_day ?l (z2 - day_from_year y1)"
      using c1 c2 eq y by (auto simp: civil_from_days_def Let_def)
    have le: "m1 \<le> m2" unfolding m using assms(1) by (simp add: month_from_day_mono)
    show ?thesis
    proof (cases "m1 = m2")
      case True
      then have "month_from_day ?l (z1 - day_from_year y1) = month_from_day ?l (z2 - day_from_year y1)"
        unfolding m by simp
      then show ?thesis using assms(1) True unfolding d date_from_day_def by simp
    next
      case False
      with le show ?thesis by simp
    qed
  qed
  ultimately show ?thesis by linarith
qed

lemma divmod_int_less:
  fixes a b k :: int
  assumes "0 < k" and "a < b"
  shows "a div k < b div k \<or> a div k = b div k \<and> a mod k < b mod k"
proof -
  have "a div k \<le> b div k" using assms by (simp add: zdiv_mono1)
  moreover have "a mod k < b mod k" if "a div k = b div k"
  proof -
    have "a div k * k = b div k * k" using that by simp
    then show ?thesis using assms(2) div_mult_mod_eq [of a k] div_mult_mod_eq [of b k] by linarith
  qed
  ultimately show ?thesis by linarith
qed

lemma div_div_clock:
  fixes x :: int
  shows "x div 60000 = x div 1000 div 60" and "x div 3600000 = x div 60000 div 60"
    and "x div 3600000 = x div 1000 div 3600"
  using zdiv_zmult2_eq [where a = x and b = 1000 and c = 60]
    zdiv_zmult2_eq [where a = x and b = 60000 and c = 60]
    zdiv_zmult2_eq [where a = x and b = 1000 and c = 3600] by simp_all

lemma Cons_less_head: "x < y \<Longrightarrow> x # xs < y # ys"
  for x y :: "'a::linorder" by (simp add: Cons_less_Cons)
lemma Cons_less_tail: "x = y \<Longrightarrow> xs < ys \<Longrightarrow> x # xs < y # ys"
  for x y :: "'a::linorder" by (simp add: Cons_less_Cons)

lemma time_of_day_less:
  fixes a b :: int
  assumes "a < b"
  shows "[a div 3600000, a div 60000 mod 60, a div 1000 mod 60, a mod 1000] <
         [b div 3600000, b div 60000 mod 60, b div 1000 mod 60, b mod 1000]"
proof (cases "a div 1000 = b div 1000")
  case qeq: True
  have f: "a mod 1000 < b mod 1000" using divmod_int_less [of 1000 a b] assms qeq by simp
  have "a div 3600000 = b div 3600000" unfolding div_div_clock(3) by (simp only: qeq)
  moreover have "a div 60000 mod 60 = b div 60000 mod 60" unfolding div_div_clock(1) by (simp only: qeq)
  moreover have "a div 1000 mod 60 = b div 1000 mod 60" by (simp only: qeq)
  ultimately show ?thesis
    by (intro Cons_less_tail Cons_less_head f)
next
  case False
  then have qlt: "a div 1000 < b div 1000" using divmod_int_less [of 1000 a b] assms by simp
  have p: "a div 60000 < b div 60000 \<or> a div 60000 = b div 60000 \<and> a div 1000 mod 60 < b div 1000 mod 60"
    unfolding div_div_clock(1) by (rule divmod_int_less) (simp, fact qlt)
  show ?thesis
  proof (cases "a div 60000 = b div 60000")
    case peq: True
    with p have s: "a div 1000 mod 60 < b div 1000 mod 60" by simp
    have "a div 3600000 = b div 3600000" unfolding div_div_clock(2) by (simp only: peq)
    moreover have "a div 60000 mod 60 = b div 60000 mod 60" by (simp only: peq)
    ultimately show ?thesis by (intro Cons_less_tail Cons_less_head s)
  next
    case False
    with p have plt: "a div 60000 < b div 60000" by simp
    have "a div 3600000 < b div 3600000 \<or>
        a div 3600000 = b div 3600000 \<and> a div 60000 mod 60 < b div 60000 mod 60"
      unfolding div_div_clock(2) by (rule divmod_int_less) (simp, fact plt)
    then show ?thesis by (blast intro: Cons_less_tail Cons_less_head)
  qed
qed
lemma time_fields_less:
  assumes "t1 < t2"
  shows "time_fields t1 < time_fields t2"
proof -
  obtain y1 m1 d1 where c1: "civil_from_days (t1 div ms_per_day) = (y1, m1, d1)" by (metis prod_cases3)
  obtain y2 m2 d2 where c2: "civil_from_days (t2 div ms_per_day) = (y2, m2, d2)" by (metis prod_cases3)
  have z: "t1 div ms_per_day \<le> t2 div ms_per_day" using assms by (simp add: zdiv_mono1 ms_per_day_def)
  show ?thesis
  proof (cases "t1 div ms_per_day = t2 div ms_per_day")
    case True
    with c1 c2 have same: "y1 = y2" "m1 = m2" "d1 = d2" by simp_all
    have "t1 div ms_per_day * ms_per_day = t2 div ms_per_day * ms_per_day" using True by simp
    then have "t1 mod ms_per_day < t2 mod ms_per_day"
      using assms div_mult_mod_eq [of t1 ms_per_day] div_mult_mod_eq [of t2 ms_per_day] by linarith
    from time_of_day_less [OF this] show ?thesis
      unfolding time_fields_def Let_def c1 c2 same prod.case
      by (intro Cons_less_tail [OF refl])
  next
    case False
    with z have "t1 div ms_per_day < t2 div ms_per_day" by simp
    from civil_from_days_less [OF this c1 c2] show ?thesis
      unfolding time_fields_def Let_def c1 c2 prod.case
      by (blast intro: Cons_less_tail Cons_less_head)
  qed
qed

lemma to_iso_string_less:
  assumes "-62167219200000 \<le> t1" "t1 < 253402300800000" "-62167219200000 \<le> t2" "t2 < 253402300800000"
    and "t1 < t2"
  shows "to_iso_string t1 < to_iso_string t2"
proof -
  note r1 = time_fields_render [OF assms(1,2)] and r2 = time_fields_render [OF assms(3,4)]
  have "render_fields [4, 2, 2, 2, 2, 2, 3] ''--T::.Z'' (time_fields t1) <
        render_fields [4, 2, 2, 2, 2, 2, 3] ''--T::.Z'' (time_fields t2)"
    using r1 r2 time_fields_less [OF assms(5)] by (intro render_fields_less) simp_all
  with r1 r2 show ?thesis by simp
qed

lemma to_iso_string_mono:
  assumes "-62167219200000 \<le> t1" "t1 < 253402300800000" "-62167219200000 \<le> t2" "t2 < 253402300800000"
    and "t1 \<le> t2"
  shows "to_iso_string t1 \<le> to_iso_string t2"
  using to_iso_string_less [OF assms(1-4)] assms(5) by (cases "t1 = t2") simp_all

end
