(* ===== verification/Console.thy ===== *)
theory Console
  imports Session IsoOrder
begin

text \<open>
  \<^verbatim>\<open>captureConsoleLogs\<close> (lines 27--37 of \<^verbatim>\<open>test-helper.js\<close>) and the
  delivery of console messages to the listeners it registers. Capturing allocates a new
  empty array on the heap and registers, for the page's \<^verbatim>\<open>"console"\<close> event, a
  closure that pushes one entry per message into that array; the array is returned by
  reference, so the caller sees every later push. Playwright dispatches a message by
  calling the page's \<^verbatim>\<open>"console"\<close> listeners in registration order
  (\<open>emit_console\<close>); \<open>deliver\<close> is a sequence of messages arriving at given clock
  readings. Nothing ever removes the listener.
\<close>

section \<open>Operations\<close>

text \<open>The entry of lines 30--34; \<^verbatim>\<open>new Date()\<close> is read when the listener
  runs, so the timestamp is the delivery time.\<close>

definition log_entry_of :: "console_message \<Rightarrow> ms \<Rightarrow> log_entry" where
  "log_entry_of m t =
     \<lparr>entry_type = msg_type m, entry_text = msg_text m, entry_timestamp = to_iso_string t\<rparr>"

text \<open>The listener body, line 30: \<^verbatim>\<open>logs.push(...)\<close> on the captured array.\<close>

definition push_log :: "nat \<Rightarrow> console_message \<Rightarrow> sworld \<Rightarrow> sworld" where
  "push_log a m w =
     w\<lparr>env := (env w)\<lparr>arrays := (arrays (env w))[a := arrays (env w) ! a @ [log_entry_of m (clock w)]]\<rparr>\<rparr>"

text \<open>Lines 28--36: allocate \<^verbatim>\<open>logs\<close>, register the listener, return the
  array's address.\<close>

definition capture_console_logs :: "sworld \<Rightarrow> nat \<times> sworld" where
  "capture_console_logs w =
     (let a = length (arrays (env w)) in
      (a, w\<lparr>env := (env w)\<lparr>arrays := arrays (env w) @ [[]],
                           listeners := listeners (env w) @ [(''console'', PushLog a)]\<rparr>\<rparr>))"

text \<open>Playwright's dispatch of one console message (Node's
  \<^verbatim>\<open>EventEmitter.emit\<close>: the listeners of the event, in registration order).\<close>

fun run_listener :: "console_message \<Rightarrow> string \<times> listener \<Rightarrow> sworld \<Rightarrow> sworld" where
  "run_listener m (ev, PushLog a) w = (if ev = ''console'' then push_log a m w else w)"

definition emit_console :: "console_message \<Rightarrow> sworld \<Rightarrow> sworld" where
  "emit_console m w = fold (run_listener m) (listeners (env w)) w"

fun deliver :: "(ms \<times> console_message) list \<Rightarrow> sworld \<Rightarrow> sworld" where
  "deliver [] w = w"
| "deliver ((t, m) # evs) w = deliver evs (emit_console m (w\<lparr>clock := t\<rparr>))"

section \<open>Fixtures\<close>

text \<open>An empty page and session at the epoch, and the three messages of scenario C.\<close>

definition empty_session :: sworld where
  "empty_session = \<lparr>clock = 0, env = \<lparr>listeners = [], arrays = [], files = Map.empty, stdout = []\<rparr>\<rparr>"

definition scenario_C_messages :: "(ms \<times> console_message) list" where
  "scenario_C_messages =
     [(1000, \<lparr>msg_type = ''log'', msg_text = ''page loaded''\<rparr>),
      (1500, \<lparr>msg_type = ''error'', msg_text = ''request failed''\<rparr>),
      (2250, \<lparr>msg_type = ''warning'', msg_text = ''slow frame''\<rparr>)]"

section \<open>Single steps\<close>

lemma push_log_frame [session_simps]:
  "listeners (env (push_log a m w)) = listeners (env w)"
  "length (arrays (env (push_log a m w))) = length (arrays (env w))"
  "clock (push_log a m w) = clock w"
  "files (env (push_log a m w)) = files (env w)"
  "stdout (env (push_log a m w)) = stdout (env w)"
  by (simp_all add: push_log_def)

lemma push_log_nth [session_simps]:
  "b < length (arrays (env w)) \<Longrightarrow>
   arrays (env (push_log a m w)) ! b =
     (if a = b then arrays (env w) ! b @ [log_entry_of m (clock w)] else arrays (env w) ! b)"
  by (simp add: push_log_def nth_list_update)

lemma run_listener_frame [session_simps]:
  "listeners (env (run_listener m l w)) = listeners (env w)"
  "length (arrays (env (run_listener m l w))) = length (arrays (env w))"
  "clock (run_listener m l w) = clock w"
  "files (env (run_listener m l w)) = files (env w)"
  "stdout (env (run_listener m l w)) = stdout (env w)"
  by (cases l; case_tac b; simp add: session_simps)+

lemma fold_run_listener_frame [session_simps]:
  "listeners (env (fold (run_listener m) ls w)) = listeners (env w)"
  "length (arrays (env (fold (run_listener m) ls w))) = length (arrays (env w))"
  "clock (fold (run_listener m) ls w) = clock w"
  "files (env (fold (run_listener m) ls w)) = files (env w)"
  "stdout (env (fold (run_listener m) ls w)) = stdout (env w)"
  by (induction ls arbitrary: w) (simp_all add: session_simps)

lemma fold_run_listener_nth:
  assumes "distinct (map snd ls)" and "b < length (arrays (env w))"
  shows "arrays (env (fold (run_listener m) ls w)) ! b =
    arrays (env w) ! b @ (if (''console'', PushLog b) \<in> set ls then [log_entry_of m (clock w)] else [])"
  using assms
proof (induction ls arbitrary: w)
  case Nil
  then show ?case by simp
next
  case (Cons l ls)
  obtain ev a where l: "l = (ev, PushLog a)" by (metis listener.exhaust prod.exhaust)
  let ?w1 = "run_listener m l w"
  have b1: "b < length (arrays (env ?w1))" using Cons.prems(2) by (simp add: session_simps)
  have IH: "arrays (env (fold (run_listener m) ls ?w1)) ! b =
    arrays (env ?w1) ! b @ (if (''console'', PushLog b) \<in> set ls then [log_entry_of m (clock w)] else [])"
    using Cons.IH [OF _ b1] Cons.prems(1) by (simp add: session_simps)
  have "(''console'', PushLog b) \<notin> set ls \<or> a \<noteq> b" using Cons.prems(1) l by force
  with IH l Cons.prems(2) show ?case
    by (auto simp: push_log_nth)
qed

lemma fold_run_listener_prefix:
  "b < length (arrays (env w)) \<Longrightarrow>
   prefix (arrays (env w) ! b) (arrays (env (fold (run_listener m) ls w)) ! b)"
proof (induction ls arbitrary: w)
  case Nil
  then show ?case by simp
next
  case (Cons l ls)
  obtain ev a where l: "l = (ev, PushLog a)" by (metis listener.exhaust prod.exhaust)
  have b1: "b < length (arrays (env (run_listener m l w)))" using Cons.prems by (simp add: session_simps)
  have "prefix (arrays (env w) ! b) (arrays (env (run_listener m l w)) ! b)"
    using Cons.prems l by (simp add: push_log_nth)
  with Cons.IH [OF b1] show ?case by (auto intro: prefix_order.trans)
qed

lemma emit_console_frame [session_simps]:
  "listeners (env (emit_console m w)) = listeners (env w)"
  "length (arrays (env (emit_console m w))) = length (arrays (env w))"
  "clock (emit_console m w) = clock w"
  "files (env (emit_console m w)) = files (env w)"
  "stdout (env (emit_console m w)) = stdout (env w)"
  by (simp_all add: emit_console_def session_simps)

lemma emit_console_nth:
  assumes "wf_session (env w)" and "b < length (arrays (env w))"
  shows "arrays (env (emit_console m w)) ! b =
    arrays (env w) ! b @
      (if (''console'', PushLog b) \<in> set (listeners (env w)) then [log_entry_of m (clock w)] else [])"
  using assms fold_run_listener_nth by (simp add: emit_console_def wf_session_def)

lemma wf_session_emit [session_simps]: "wf_session (env (emit_console m w)) = wf_session (env w)"
  by (simp add: wf_session_def session_simps)

lemma deliver_frame [session_simps]:
  "listeners (env (deliver evs w)) = listeners (env w)"
  "length (arrays (env (deliver evs w))) = length (arrays (env w))"
  "files (env (deliver evs w)) = files (env w)"
  "stdout (env (deliver evs w)) = stdout (env w)"
  by (induction evs w rule: deliver.induct) (simp_all add: session_simps)

lemma wf_session_deliver [session_simps]: "wf_session (env (deliver evs w)) = wf_session (env w)"
  by (simp add: wf_session_def session_simps)

lemma subscribed_in_range:
  "wf_session s \<Longrightarrow> (ev, PushLog b) \<in> set (listeners s) \<Longrightarrow> b < length (arrays s)"
  unfolding wf_session_def by (metis listener_addr.simps image_eqI snd_conv)

lemma deliver_subscribed:
  "wf_session (env w) \<Longrightarrow> (''console'', PushLog b) \<in> set (listeners (env w)) \<Longrightarrow>
   arrays (env (deliver evs w)) ! b = arrays (env w) ! b @ map (\<lambda>(t, m). log_entry_of m t) evs"
proof (induction evs w rule: deliver.induct)
  case (1 w)
  then show ?case by simp
next
  case (2 t m evs w)
  let ?w1 = "emit_console m (w\<lparr>clock := t\<rparr>)"
  have b: "b < length (arrays (env w))" by (rule subscribed_in_range [OF 2(2,3)])
  have "arrays (env ?w1) ! b = arrays (env w) ! b @ [log_entry_of m t]"
    using emit_console_nth [of "w\<lparr>clock := t\<rparr>" b m] 2(2,3) b by simp
  moreover have "arrays (env (deliver evs ?w1)) ! b = arrays (env ?w1) ! b @ map (\<lambda>(t, m). log_entry_of m t) evs"
    using 2 by (simp add: session_simps)
  ultimately show ?case by simp
qed

lemma capture_console_logs_fresh:
  assumes "capture_console_logs w = (a, w')"
  shows "a = length (arrays (env w))" and "arrays (env w') = arrays (env w) @ [[]]"
    and "listeners (env w') = listeners (env w) @ [(''console'', PushLog a)]"
    and "clock w' = clock w" and "files (env w') = files (env w)" and "stdout (env w') = stdout (env w)"
  using assms by (auto simp: capture_console_logs_def Let_def)

lemma wf_session_capture:
  assumes "wf_session (env w)" and "capture_console_logs w = (a, w')"
  shows "wf_session (env w')"
proof -
  have "PushLog a \<notin> snd ` set (listeners (env w))"
    using assms capture_console_logs_fresh(1) [OF assms(2)] unfolding wf_session_def by force
  then show ?thesis
    using assms(1) capture_console_logs_fresh [OF assms(2)] unfolding wf_session_def by auto
qed

lemma deliver_prefix:
  "b < length (arrays (env w)) \<Longrightarrow> prefix (arrays (env w) ! b) (arrays (env (deliver evs w)) ! b)"
proof (induction evs w rule: deliver.induct)
  case (1 w)
  then show ?case by simp
next
  case (2 t m evs w)
  let ?w1 = "emit_console m (w\<lparr>clock := t\<rparr>)"
  have "prefix (arrays (env w) ! b) (arrays (env ?w1) ! b)"
    using fold_run_listener_prefix [of b "w\<lparr>clock := t\<rparr>" m] 2(2) by (simp add: emit_console_def)
  moreover have "prefix (arrays (env ?w1) ! b) (arrays (env (deliver evs ?w1)) ! b)"
    using 2 by (simp add: session_simps)
  ultimately show ?case by (auto intro: prefix_order.trans)
qed

lemma captured_array_after_deliver:
  assumes "wf_session (env w)" and "capture_console_logs w = (a, w')"
  shows "arrays (env (deliver evs w')) ! a = map (\<lambda>(t, m). log_entry_of m t) evs"
proof -
  have "wf_session (env w')" by (rule wf_session_capture [OF assms])
  moreover have "(''console'', PushLog a) \<in> set (listeners (env w'))"
    using capture_console_logs_fresh(3) [OF assms(2)] by simp
  moreover have "arrays (env w') ! a = []"
    using capture_console_logs_fresh(1,2) [OF assms(2)] by simp
  ultimately show ?thesis using deliver_subscribed by simp
qed

lemma sorted_iso_timestamps:
  assumes "sorted (map fst evs)"
    and "\<forall>e \<in> set evs. -62167219200000 \<le> fst e \<and> fst e < 253402300800000"
  shows "sorted (map (\<lambda>(t, m). to_iso_string t) evs)"
  using assms
proof (induction evs)
  case (Cons e evs)
  obtain t m where e: "e = (t, m)" by fastforce
  have le: "to_iso_string t \<le> to_iso_string t'" if "(t', m') \<in> set evs" for t' m'
    using Cons.prems e that by (intro to_iso_string_mono) force+
  have "sorted (map (\<lambda>(t, m). to_iso_string t) evs)"
    using Cons.prems by (intro Cons.IH) simp_all
  with le e show ?case by auto
qed simp

section \<open>Properties\<close>

text \<open>C9. The array returned by \<^verbatim>\<open>captureConsoleLogs\<close> receives every console
  message delivered afterwards, exactly once and in arrival order, each with its type, its
  text and the ISO time of its delivery, and nothing else.\<close>

theorem capture_console_logs_receives:
  assumes "wf_session (env w)" and "capture_console_logs w = (a, w')"
  shows "arrays (env (deliver evs w')) ! a = map (\<lambda>(t, m). log_entry_of m t) evs"
  using assms by (rule captured_array_after_deliver)
text \<open>C10. Two captures on the same page are independent arrays that receive the
  same entries.\<close>

theorem captures_receive_alike:
  assumes "wf_session (env w)" and "capture_console_logs w = (a1, w1)"
    and "capture_console_logs w1 = (a2, w2)"
  shows "a1 \<noteq> a2 \<and> arrays (env (deliver evs w2)) ! a1 = arrays (env (deliver evs w2)) ! a2"
proof -
  have wf1: "wf_session (env w1)" by (rule wf_session_capture [OF assms(1,2)])
  have wf2: "wf_session (env w2)" by (rule wf_session_capture [OF wf1 assms(3)])
  note c1 = capture_console_logs_fresh [OF assms(2)] and c2 = capture_console_logs_fresh [OF assms(3)]
  have ne: "a1 \<noteq> a2" using c1(1,2) c2(1) by simp
  have "(''console'', PushLog a1) \<in> set (listeners (env w2))" and
       "(''console'', PushLog a2) \<in> set (listeners (env w2))"
    using c1(3) c2(3) by simp_all
  moreover have "arrays (env w2) ! a1 = []" and "arrays (env w2) ! a2 = []"
    using c1(1,2) c2(1,2) by (simp_all add: nth_append)
  ultimately show ?thesis using ne deliver_subscribed [OF wf2] by simp
qed

text \<open>C17. The timestamp that the listener of \<^verbatim>\<open>captureConsoleLogs\<close> records
  with a message (line 33) keeps the millisecond of the delivery: for every time in years
  0--9999 it reads back to that time, so messages delivered at different milliseconds
  carry different timestamps.\<close>

theorem log_entry_timestamp_roundtrip:
  assumes "-62167219200000 \<le> t" and "t < 253402300800000"
  shows "parse_stamp (entry_timestamp (log_entry_of m t)) = Some t"
  using to_iso_string_roundtrip [OF assms] by (simp add: log_entry_of_def)

text \<open>C22. Messages delivered in time order are logged with timestamps in order: for
  times in years 0--9999, the \<^verbatim>\<open>timestamp\<close> strings of the array returned by
  \<^verbatim>\<open>captureConsoleLogs\<close> are sorted lexicographically, so sorting the log by
  timestamp keeps the order of delivery.\<close>

theorem captured_timestamps_sorted:
  assumes "wf_session (env w)" and "capture_console_logs w = (a, w')"
    and "sorted (map fst evs)"
    and "\<forall>e \<in> set evs. -62167219200000 \<le> fst e \<and> fst e < 253402300800000"
  shows "sorted (map entry_timestamp (arrays (env (deliver evs w')) ! a))"
proof -
  have e: "map entry_timestamp (map (\<lambda>(t, m). log_entry_of m t) evs) = map (\<lambda>(t, m). to_iso_string t) evs"
    by (induction evs) (auto simp: log_entry_of_def)
  show ?thesis
    unfolding captured_array_after_deliver [OF assms(1,2)] e by (rule sorted_iso_timestamps [OF assms(3,4)])
qed

section \<open>Witnesses\<close>

lemma wf_empty_session: "wf_session (env empty_session)"
  by (simp add: wf_session_def empty_session_def)

lemma capture_empty_session:
  "capture_console_logs empty_session =
     (0, empty_session\<lparr>env := (env empty_session)\<lparr>arrays := [[]], listeners := [(''console'', PushLog 0)]\<rparr>\<rparr>)"
  by (simp add: capture_console_logs_def empty_session_def)

theorem capture_console_logs_receives_witness:
  "arrays (env (deliver scenario_C_messages
      (empty_session\<lparr>env := (env empty_session)\<lparr>arrays := [[]], listeners := [(''console'', PushLog 0)]\<rparr>\<rparr>))) ! 0
   = map (\<lambda>(t, m). log_entry_of m t) scenario_C_messages"
  by (rule capture_console_logs_receives [OF wf_empty_session capture_empty_session])

theorem captures_receive_alike_witness:
  "(0::nat) \<noteq> 1 \<and>
   arrays (env (deliver scenario_C_messages
      (empty_session\<lparr>env := (env empty_session)\<lparr>arrays := [[], []],
         listeners := [(''console'', PushLog 0), (''console'', PushLog 1)]\<rparr>\<rparr>))) ! 0 =
   arrays (env (deliver scenario_C_messages
      (empty_session\<lparr>env := (env empty_session)\<lparr>arrays := [[], []],
         listeners := [(''console'', PushLog 0), (''console'', PushLog 1)]\<rparr>\<rparr>))) ! 1"
  by (rule captures_receive_alike [OF wf_empty_session capture_empty_session])
     (simp add: capture_console_logs_def empty_session_def)

theorem log_entry_timestamp_roundtrip_witness:
  "-62167219200000 \<le> (1700000000123::int) \<and> 1700000000123 < (253402300800000::int) \<and>
   parse_stamp (entry_timestamp (log_entry_of \<lparr>msg_type = ''log'', msg_text = ''ready''\<rparr> 1700000000123)) =
     Some 1700000000123"
  using log_entry_timestamp_roundtrip [of 1700000000123] by simp

theorem captured_timestamps_sorted_witness:
  "sorted (map entry_timestamp (arrays (env (deliver scenario_C_messages
      (empty_session\<lparr>env := (env empty_session)\<lparr>arrays := [[]], listeners := [(''console'', PushLog 0)]\<rparr>\<rparr>))) ! 0))"
  by (rule captured_timestamps_sorted [OF wf_empty_session capture_empty_session])
     (simp_all add: scenario_C_messages_def)

end
