(* ===== verification/Screenshot.thy ===== *)
theory Screenshot
  imports Session IsoOrder
begin

text \<open>
  \<^verbatim>\<open>captureScreenshot\<close> (lines 44--50 of \<^verbatim>\<open>test-helper.js\<close>): the file name is
  the base name, a dash, the ISO time of the call with every colon and dot replaced by a
  dash, and \<^verbatim>\<open>.png\<close>; the page is captured to that path; on success one line naming
  the file is written to standard output and the name is returned. The capture itself is
  Playwright's: a parameter that resolves with an image (written at the path) or rejects.
\<close>

section \<open>Operations\<close>

text \<open>\<^verbatim>\<open>.replace(/[:.]/g, "-")\<close>: every occurrence of either character.\<close>

definition replace_colon_dot :: "string \<Rightarrow> string" where
  "replace_colon_dot s = map (\<lambda>c. if c = CHR '':'' \<or> c = CHR ''.'' then CHR ''-'' else c) s"

definition screenshot_timestamp :: "ms \<Rightarrow> string" where
  "screenshot_timestamp t = replace_colon_dot (to_iso_string t)"

definition screenshot_filename :: "string \<Rightarrow> ms \<Rightarrow> string" where
  "screenshot_filename name t = name @ ''-'' @ screenshot_timestamp t @ ''.png''"

type_synonym shooter = "sworld \<Rightarrow> (jsval + image) \<times> sworld"

definition capture_screenshot :: "shooter \<Rightarrow> string \<Rightarrow> sworld \<Rightarrow> (jsval + string) \<times> sworld" where
  "capture_screenshot shoot name w =
     (let filename = screenshot_filename name (clock w) in
      case shoot w of
        (Inl e, w') \<Rightarrow> (Inl e, w')
      | (Inr img, w') \<Rightarrow>
          (Inr filename,
           w'\<lparr>env := (env w')\<lparr>files := (files (env w'))(filename \<mapsto> img),
                               stdout := stdout (env w') @ [ScreenshotSaved filename]\<rparr>\<rparr>))"

section \<open>Fixtures\<close>

text \<open>A capture that takes no time and returns image \<open>n\<close>, and one that rejects.\<close>

definition instant_shot :: "nat \<Rightarrow> shooter" where
  "instant_shot n w = (Inr (Image n), w)"

definition failing_shot :: shooter where
  "failing_shot w = (Inl (JStr ''Target closed''), w)"

definition session_at :: "ms \<Rightarrow> sworld" where
  "session_at t = \<lparr>clock = t, env = \<lparr>listeners = [], arrays = [], files = Map.empty, stdout = []\<rparr>\<rparr>"

section \<open>Lemmas\<close>

lemma set_replace_colon_dot:
  "set (replace_colon_dot s) = (set s - {CHR '':'', CHR ''.''}) \<union>
     (if CHR '':'' \<in> set s \<or> CHR ''.'' \<in> set s then {CHR ''-''} else {})"
  by (auto simp: replace_colon_dot_def)

lemma screenshot_timestamp_chars:
  "set (screenshot_timestamp t) \<subseteq> decimal_digits \<union> {CHR ''-'', CHR ''+'', CHR ''T'', CHR ''Z''}"
  using set_to_iso_string [of t] by (auto simp: screenshot_timestamp_def set_replace_colon_dot)

lemma capture_screenshot_ok:
  "shoot w = (Inr img, w') \<Longrightarrow>
   capture_screenshot shoot name w =
     (Inr (screenshot_filename name (clock w)),
      w'\<lparr>env := (env w')\<lparr>files := (files (env w'))(screenshot_filename name (clock w) \<mapsto> img),
         stdout := stdout (env w') @ [ScreenshotSaved (screenshot_filename name (clock w))]\<rparr>\<rparr>)"
  by (simp add: capture_screenshot_def Let_def)

lemma capture_screenshot_err:
  "shoot w = (Inl e, w') \<Longrightarrow> capture_screenshot shoot name w = (Inl e, w')"
  by (simp add: capture_screenshot_def)

lemma replace_colon_dot_simps:
  "replace_colon_dot [] = []"
  "replace_colon_dot (c # s) = (if c = CHR '':'' \<or> c = CHR ''.'' then CHR ''-'' else c) # replace_colon_dot s"
  "replace_colon_dot (s @ s') = replace_colon_dot s @ replace_colon_dot s'"
  by (simp_all add: replace_colon_dot_def)

lemma replace_colon_dot_zero_pad: "replace_colon_dot (zero_pad w n) = zero_pad w n"
proof -
  have d: "x \<noteq> CHR '':'' \<and> x \<noteq> CHR ''.''" if "x \<in> set (zero_pad w n)" for x
    using that set_zero_pad non_digits(4,5) by blast
  show ?thesis unfolding replace_colon_dot_def by (rule map_idI) (use d in auto)
qed

lemma screenshot_timestamp_layout:
  assumes "0 \<le> year_from_day (t div ms_per_day)" "year_from_day (t div ms_per_day) \<le> 9999"
    and "civil_from_days (t div ms_per_day) = (y, m, d)"
  shows "screenshot_timestamp t =
    zero_pad 4 (nat y) @ CHR ''-'' # zero_pad 2 (nat m) @ CHR ''-'' # zero_pad 2 (nat d) @
    CHR ''T'' # zero_pad 2 (nat (t mod ms_per_day div 3600000)) @
    CHR ''-'' # zero_pad 2 (nat (t mod ms_per_day div 60000 mod 60)) @
    CHR ''-'' # zero_pad 2 (nat (t mod ms_per_day div 1000 mod 60)) @
    CHR ''-'' # zero_pad 3 (nat (t mod ms_per_day mod 1000)) @ [CHR ''Z'']"
  unfolding screenshot_timestamp_def iso_string_layout [OF assms]
  by (simp add: replace_colon_dot_simps replace_colon_dot_zero_pad)

lemma parse_screenshot_timestamp:
  assumes "-62167219200000 \<le> t" and "t < 253402300800000"
  shows "parse_stamp (screenshot_timestamp t) = Some t"
proof -
  obtain y m d where c: "civil_from_days (t div ms_per_day) = (y, m, d)" by (metis prod_cases3)
  from iso_range [OF assms] have r: "0 \<le> year_from_day (t div ms_per_day)"
    "year_from_day (t div ms_per_day) \<le> 9999" by simp_all
  show ?thesis unfolding screenshot_timestamp_layout [OF r c] by (rule iso_fields [OF r c])
qed

lemma parse_stamp_length: "parse_stamp s = Some x \<Longrightarrow> length s = 24"
  unfolding parse_stamp_def by (cases "length s = 24") simp_all

lemma screenshot_filename_eq:
  assumes "-62167219200000 \<le> t1" "t1 < 253402300800000" "-62167219200000 \<le> t2" "t2 < 253402300800000"
    and "screenshot_filename n1 t1 = screenshot_filename n2 t2"
  shows "n1 = n2 \<and> t1 = t2"
proof -
  have p1: "parse_stamp (screenshot_timestamp t1) = Some t1"
    by (rule parse_screenshot_timestamp [OF assms(1,2)])
  have p2: "parse_stamp (screenshot_timestamp t2) = Some t2"
    by (rule parse_screenshot_timestamp [OF assms(3,4)])
  let ?u1 = "CHR ''-'' # screenshot_timestamp t1 @ ''.png''"
    and ?u2 = "CHR ''-'' # screenshot_timestamp t2 @ ''.png''"
  have len: "length ?u1 = length ?u2"
    by (simp only: length_Cons length_append parse_stamp_length [OF p1] parse_stamp_length [OF p2])
  have eq: "n1 @ ?u1 = n2 @ ?u2"
    using assms(5) unfolding screenshot_filename_def by (simp only: append.simps)
  have "n1 = n2 \<and> ?u1 = ?u2"
    by (rule iffD1 [OF append_eq_append_conv [OF disjI2 [OF len]] eq])
  then have "n1 = n2" "screenshot_timestamp t1 = screenshot_timestamp t2" by simp_all
  with p1 p2 show ?thesis by (metis option.inject)
qed

lemma replace_colon_dot_render:
  "replace_colon_dot (render_fields ws cs xs) = render_fields ws (replace_colon_dot cs) xs"
  by (induction ws cs xs rule: render_fields.induct)
     (simp_all add: replace_colon_dot_simps replace_colon_dot_zero_pad)

lemma screenshot_timestamp_less:
  assumes "-62167219200000 \<le> t1" "t1 < 253402300800000" "-62167219200000 \<le> t2" "t2 < 253402300800000"
    and "t1 < t2"
  shows "screenshot_timestamp t1 < screenshot_timestamp t2"
proof -
  note r1 = time_fields_render [OF assms(1,2)] and r2 = time_fields_render [OF assms(3,4)]
  have "render_fields [4, 2, 2, 2, 2, 2, 3] ''--T---Z'' (time_fields t1) <
        render_fields [4, 2, 2, 2, 2, 2, 3] ''--T---Z'' (time_fields t2)"
    using r1 r2 time_fields_less [OF assms(5)] by (intro render_fields_less) simp_all
  moreover have "replace_colon_dot ''--T::.Z'' = ''--T---Z''" by (simp add: replace_colon_dot_def)
  ultimately show ?thesis
    using r1 r2 unfolding screenshot_timestamp_def by (simp add: replace_colon_dot_render)
qed

lemma screenshot_filename_less:
  assumes "-62167219200000 \<le> t1" "t1 < 253402300800000" "-62167219200000 \<le> t2" "t2 < 253402300800000"
    and "t1 < t2"
  shows "screenshot_filename n t1 < screenshot_filename n t2"
proof -
  have l: "length (screenshot_timestamp t1) = length (screenshot_timestamp t2)"
    using parse_stamp_length [OF parse_screenshot_timestamp [OF assms(1,2)]]
      parse_stamp_length [OF parse_screenshot_timestamp [OF assms(3,4)]] by simp
  have "screenshot_timestamp t1 @ ''.png'' < screenshot_timestamp t2 @ ''.png''"
    unfolding append_less_same_length [OF l] using screenshot_timestamp_less [OF assms] by simp
  then show ?thesis
    unfolding screenshot_filename_def by (simp add: append_less_same_length Cons_less_Cons)
qed

section \<open>Properties\<close>

text \<open>C11. When the page capture succeeds, \<^verbatim>\<open>captureScreenshot\<close> returns the
  name built from the base name and the time of the call, the image is stored under
  exactly that name (one file added or replaced, every other file as the capture left it),
  exactly one line naming the file is written, and the console arrays and listeners are
  left alone.\<close>

theorem capture_screenshot_writes_and_logs:
  assumes "shoot w = (Inr img, w')" and "capture_screenshot shoot name w = (r, w'')"
  shows "r = Inr (screenshot_filename name (clock w)) \<and>
         dom (files (env w'')) = insert (screenshot_filename name (clock w)) (dom (files (env w'))) \<and>
         files (env w'') (screenshot_filename name (clock w)) = Some img \<and>
         (\<forall>g. g \<noteq> screenshot_filename name (clock w) \<longrightarrow> files (env w'') g = files (env w') g) \<and>
         stdout (env w'') = stdout (env w') @ [ScreenshotSaved (screenshot_filename name (clock w))] \<and>
         arrays (env w'') = arrays (env w') \<and> listeners (env w'') = listeners (env w')"
  using assms by (auto simp: capture_screenshot_ok)

text \<open>C12. When the page capture rejects, \<^verbatim>\<open>captureScreenshot\<close> rejects with the
  same value, writes no line and stores no file of its own: the world is the one the
  failed capture left.\<close>

theorem capture_screenshot_rejects:
  assumes "shoot w = (Inl e, w')"
  shows "capture_screenshot shoot name w = (Inl e, w') \<and>
         stdout (env (snd (capture_screenshot shoot name w))) = stdout (env w')"
  using assms by (simp add: capture_screenshot_err)

text \<open>C13. The timestamp part of a screenshot name contains no colon and no dot: only
  digits, dashes, the letters \<^verbatim>\<open>T\<close> and \<^verbatim>\<open>Z\<close>, and a \<^verbatim>\<open>+\<close> for years after
  9999.\<close>

theorem screenshot_timestamp_charset:
  "CHR '':'' \<notin> set (screenshot_timestamp t) \<and> CHR ''.'' \<notin> set (screenshot_timestamp t) \<and>
   set (screenshot_timestamp t) \<subseteq> decimal_digits \<union> {CHR ''-'', CHR ''+'', CHR ''T'', CHR ''Z''}"
  using screenshot_timestamp_chars [of t] non_digits by blast

section \<open>Witnesses\<close>

theorem capture_screenshot_writes_and_logs_witness:
  "fst (capture_screenshot (instant_shot 3) ''a'' (session_at 7)) = Inr (screenshot_filename ''a'' 7) \<and>
   dom (files (env (snd (capture_screenshot (instant_shot 3) ''a'' (session_at 7))))) =
     {screenshot_filename ''a'' 7}"
proof -
  have s: "instant_shot 3 (session_at 7) = (Inr (Image 3), session_at 7)" by (simp add: instant_shot_def)
  obtain r w'' where c: "capture_screenshot (instant_shot 3) ''a'' (session_at 7) = (r, w'')"
    by fastforce
  from capture_screenshot_writes_and_logs [OF s c] show ?thesis
    unfolding c by (simp add: session_at_def)
qed

theorem capture_screenshot_rejects_witness:
  "capture_screenshot failing_shot ''a'' (session_at 7) = (Inl (JStr ''Target closed''), session_at 7) \<and>
   stdout (env (snd (capture_screenshot failing_shot ''a'' (session_at 7)))) = stdout (env (session_at 7))"
  by (rule capture_screenshot_rejects) (simp add: failing_shot_def)

text \<open>C18. A screenshot's file name determines both the base name and the millisecond
  of the call, for every time in years 0--9999: two calls that differ in either get
  different files.\<close>

theorem screenshot_filename_injective:
  assumes "-62167219200000 \<le> t1" "t1 < 253402300800000" "-62167219200000 \<le> t2" "t2 < 253402300800000"
  shows "screenshot_filename n1 t1 = screenshot_filename n2 t2 \<longleftrightarrow> n1 = n2 \<and> t1 = t2"
  using screenshot_filename_eq [OF assms] by blast

theorem screenshot_filename_injective_witness:
  "screenshot_filename ''home'' 1700000000000 \<noteq> screenshot_filename ''home'' 1700000000001"
  using screenshot_filename_injective [of 1700000000000 1700000000001 "''home''" "''home''"] by simp

text \<open>C19. A successful capture at another millisecond never replaces an earlier
  screenshot of the same base name: if the page capture itself leaves the files alone,
  the file of the earlier time keeps its image.\<close>

theorem capture_screenshot_keeps_other_times:
  assumes "shoot w = (Inr img, w')" and "files (env w') = files (env w)"
    and "-62167219200000 \<le> t" "t < 253402300800000"
    and "-62167219200000 \<le> clock w" "clock w < 253402300800000" and "t \<noteq> clock w"
  shows "files (env (snd (capture_screenshot shoot name w))) (screenshot_filename name t) =
         files (env w) (screenshot_filename name t)"
proof -
  have "screenshot_filename name t \<noteq> screenshot_filename name (clock w)"
    using screenshot_filename_eq [of t "clock w" name name] assms(3-7) by blast
  with assms(1,2) show ?thesis by (simp add: capture_screenshot_ok)
qed

theorem capture_screenshot_keeps_other_times_witness:
  "files (env (snd (capture_screenshot (instant_shot 2) ''home''
      ((session_at 1700000000001)\<lparr>env := (env (session_at 1700000000001))\<lparr>files :=
         [screenshot_filename ''home'' 1700000000000 \<mapsto> Image 1]\<rparr>\<rparr>))))
     (screenshot_filename ''home'' 1700000000000) = Some (Image 1)"
  using capture_screenshot_keeps_other_times [of "instant_shot 2"
      "(session_at 1700000000001)\<lparr>env := (env (session_at 1700000000001))\<lparr>files :=
         [screenshot_filename ''home'' 1700000000000 \<mapsto> Image 1]\<rparr>\<rparr>" "Image 2" _
      1700000000000 "''home''"]
  by (simp add: instant_shot_def session_at_def)

text \<open>C21. Screenshot names of one base name sort as their times do: for times in years
  0--9999, the name of one call is lexicographically smaller than the name of another
  exactly when it was taken at an earlier millisecond, so listing the files by name lists
  them in the order they were taken.\<close>

theorem screenshot_filename_order:
  assumes "-62167219200000 \<le> t1" "t1 < 253402300800000" "-62167219200000 \<le> t2" "t2 < 253402300800000"
  shows "screenshot_filename n t1 < screenshot_filename n t2 \<longleftrightarrow> t1 < t2"
proof
  assume "t1 < t2"
  then show "screenshot_filename n t1 < screenshot_filename n t2"
    by (rule screenshot_filename_less [OF assms])
next
  assume lt: "screenshot_filename n t1 < screenshot_filename n t2"
  show "t1 < t2"
  proof (rule ccontr)
    assume "\<not> t1 < t2"
    then have "t2 < t1 \<or> t1 = t2" by auto
    then show False
    proof
      assume "t2 < t1"
      from screenshot_filename_less [OF assms(3,4,1,2) this, of n] lt show False by simp
    next
      assume "t1 = t2"
      with lt show False by simp
    qed
  qed
qed

theorem screenshot_filename_order_witness:
  "screenshot_filename ''home'' 1700000000000 < screenshot_filename ''home'' 1700000000001"
  using screenshot_filename_order [of 1700000000000 1700000000001 "''home''"] by simp

end
