(* ===== verification/Spec2Isabelle.thy ===== *)
theory Spec2Isabelle
  imports PollMachine Console Screenshot
begin

text \<open>
  \<^bold>\<open>Verification of the web-app test helpers.\<close>
  The program is \<^verbatim>\<open>src/.github/skills/webapp-testing/test-helper.js\<close>, a Node.js
  module for Playwright test scripts that exports three independent helpers:
  \<^item> \<^verbatim>\<open>waitForCondition(condition, timeout = 5000, interval = 100)\<close> (lines 11--20),
    the condition poller: it reads the clock, then while less than \<open>timeout\<close> ms have
    elapsed awaits the condition, returns \<open>true\<close> when it is truthy and otherwise
    sleeps \<open>interval\<close> ms with \<^verbatim>\<open>setTimeout\<close>; after the loop it throws;
  \<^item> \<^verbatim>\<open>captureConsoleLogs(page)\<close> (lines 27--37): allocates an array, registers on the
    page a \<^verbatim>\<open>"console"\<close> listener that pushes \<open>{type, text, timestamp}\<close> for each
    message, and returns the array;
  \<^item> \<^verbatim>\<open>captureScreenshot(page, name)\<close> (lines 44--50): builds
    \<open>name-<ISO time with ':' and '.' replaced by '-'>.png\<close>, has Playwright capture
    the full page to that path, prints a line naming it and returns the name.
  They interact only through the state they share: the clock, the page's listeners, the
  heap of log arrays, the working directory and standard output. A test typically
  captures the console, then polls a condition on the captured array.

  \<^bold>\<open>Theories.\<close>
  \<^item> \<open>Prelude\<close>: the clock type \<open>ms\<close>, the \<open>world\<close> record (clock and environment)
    every helper runs against, \<open>default_arg\<close> for JavaScript default parameters, the
    collections \<open>poll_simps\<close> and \<open>session_simps\<close>, lemmas on floor division (ceiling
    bound, the step of \<open>(x + 1) div k\<close>).
  \<^item> \<open>JsValue\<close>: JavaScript values and ToBoolean (\<open>truthy\<close>), used by line 14.
  \<^item> \<open>Timer\<close>: the delay Node's \<^verbatim>\<open>setTimeout\<close> really waits (\<open>timer_delay\<close>:
    delays outside \<open>[1, 2^31 - 1]\<close> become 1 ms), line 17.
  \<^item> \<open>Poller\<close>: \<open>poll_loop\<close> (lines 13--19) as a \<^theory_text>\<open>partial_function\<close> into
    \<open>option\<close> over a world, parameterised by the condition (a function of the world
    that resolves or throws) and the event loop (a scheduler returning the world in which
    a timer of a given delay fires); \<open>wait_for_condition\<close> adds the defaults and the
    start reading (lines 11--12). Its lemmas: the loop one branch at a time
    (\<open>poll_simps\<close>); termination under two runtime contracts (\<open>clock_monotone\<close>,
    \<open>timer_sound\<close>) by induction on the distance to the deadline, which shrinks by at
    least 1 ms per iteration since \<open>timer_delay \<ge> 1\<close>; partial correctness by fixpoint
    induction (\<open>poll_outcome\<close>); the outcomes themselves: success right after a
    truthy evaluation, the timeout error only after the deadline and at most one evaluation
    and one sleep past it, no evaluation when the timeout is not positive, and a thrown
    value re-thrown; and, for a condition true from its \<open>n\<close>-th evaluation on and
    timers on time, the exact outcome, finishing time and number of evaluations for every
    timeout and interval (\<open>counter_poll_loop\<close>, by induction on the live evaluations left).
  \<^item> \<open>PollMachine\<close>: the same loop as an \<^theory_text>\<open>inductive\<close> small-step relation with
    a nondeterministic environment and a ghost counter of evaluations; the invariant
    \<open>poll_inv\<close> by rule induction; the bound \<open>\<lceil>timeout / d\<rceil>\<close> on evaluations; a
    simulation (\<open>poll_loop_simulation\<close>) from every returning run of \<open>poll_loop\<close>,
    which carries the bound over to the code; liveness of control: the moves that change
    the program point are well-founded (measure \<open>control_measure\<close>: the evaluations
    still allowed by the bound, then a rank of the program point).
  \<^item> \<open>Calendar\<close>: the date arithmetic of ECMA-262 that
    \<^verbatim>\<open>toISOString\<close> rests on: \<open>day_from_year\<close> (DayFromYear),
    \<open>in_leap_year\<close>, the month table (\<open>month_start\<close>, \<open>month_from_day\<close>,
    \<open>date_from_day\<close>); years are 365 or 366 days apart and every day of a year falls
    in a month on a date from 1 to 31.
  \<^item> \<open>IsoDate\<close>: \<^verbatim>\<open>Date.prototype.toISOString\<close>: days by floor division,
    the year as the specification's YearFromTime (the largest year whose first day is not
    after the day, found by \<open>year_search\<close>, a \<^theory_text>\<open>function\<close> with a termination
    proof), month and date from the table, zero padding, expanded years; the characters it
    can produce; and its inverse on years 0--9999: \<open>parse_stamp\<close> reads the seven
    fixed-width fields back and \<open>to_iso_string_roundtrip\<close> shows that it returns the
    time value. It is the runtime's function, modelled from its specification; its values
    at concrete times are evaluated in the witnesses of the claims on timestamps.
  \<^item> \<open>IsoOrder\<close>: the order of those strings: the string is the rendering
    (\<open>render_fields\<close>) of seven fixed-width fields (\<open>time_fields\<close>); zero-padded
    numbers of one width compare as numbers (\<open>zero_pad_less\<close>), rendering is
    monotone in the lexicographic order of the fields, and the fields follow the order of
    the times, so on years 0--9999 \<open>to_iso_string\<close> is strictly monotone for the
    lexicographic order of \<^theory_text>\<open>HOL-Library.List_Lexorder\<close> over characters ordered
    by code point (\<^theory_text>\<open>HOL-Library.Char_ord\<close>).
  \<^item> \<open>Session\<close>: the shared state: \<open>session\<close> (listeners, heap of log arrays as a
    list indexed by address, files as a map, stdout lines), \<open>wf_session\<close>.
  \<^item> \<open>Console\<close>: \<open>capture_console_logs\<close>, the listener body \<open>push_log\<close>,
    Playwright's dispatch \<open>emit_console\<close> (listeners in registration order) and
    \<open>deliver\<close> (a sequence of timed messages); that the returned array receives exactly
    the later messages in order, independence of two captures, that each recorded timestamp reads back to its millisecond, and that
    messages delivered in time order are logged with sorted timestamps.
  \<^item> \<open>Screenshot\<close>: \<open>replace_colon_dot\<close>, \<open>screenshot_timestamp\<close>,
    \<open>screenshot_filename\<close>, \<open>capture_screenshot\<close> with the page capture as a
    parameter that resolves with an image or rejects; the effects on success and on
    rejection, the character set of the name, and, from the round trip, that a file name
    determines its base name and millisecond, so that a capture at another millisecond
    never replaces an earlier file; and that names of one base name sort as their times.
  \<^item> this theory: \<^verbatim>\<open>module.exports\<close> as the record \<open>test_helper\<close>
    (\<open>module_exports\<close>, one field per helper); the operations of the helpers, called
    through it, on one session as a datatype
    \<open>session_op\<close> with one step function, under which every console array only grows
    at its end whatever the helpers do; and the
    use the helpers are made for, polling \<^verbatim>\<open>() => logs.length >= n\<close> on a captured
    array while the browser delivers messages during the poller's sleeps
    (\<open>browser_sleep\<close>, the event loop): the outcome is characterised exactly by the
    messages arrived at the last check before the deadline.

  \<^bold>\<open>Bounds and fuel.\<close> No fuel is used. \<open>poll_loop\<close> is partial; its termination
  theorem assumes only that evaluations never set the clock back and that timers never
  fire early, and needs no bound on the timeout: the measure is
  \<open>nat (start + timeout - clock)\<close>. Clock readings and durations are unbounded
  \<open>int\<close>s, since \<^verbatim>\<open>Date.now()\<close> and JavaScript numbers used here stay far
  inside the exactly representable integers. The round trip of the ISO string and the
  uniqueness of screenshot names are stated for times in years 0--9999
  (\<open>-62167219200000 \<le> t < 253402300800000\<close>), where the string has its fixed
  form of 24 characters; outside it the year is written with a sign and six digits.

  \<^bold>\<open>Not modelled.\<close> The lines of \<^verbatim>\<open>test-helper.js\<close> outside the three
  functions and \<^verbatim>\<open>module.exports\<close> are comments (the JSDoc blocks of lines 1--10,
  22--26 and 39--43) and blank lines; they have no behaviour. \<^verbatim>\<open>toISOString\<close> throws a RangeError for times beyond
  \<open>8.64 * 10^15\<close> ms from the epoch; clocks there are not considered. Non-integral
  or non-numeric timeouts and intervals (JavaScript coerces them) and fractional timer
  delays are outside the model: durations are integers. The pixels of
  a screenshot and how Playwright writes the file are abstracted into an \<open>image\<close> value
  stored under the path: the capture is a parameter that does not receive the options
  \<^verbatim>\<open>path\<close> and \<^verbatim>\<open>fullPage\<close> of line 47, and the file is written by the model
  after the capture succeeds; the fixed (non-ASCII) texts of the error of line 19 and the line
  of line 48 are represented by constructors.

  \<^bold>\<open>Plan for later work.\<close> (1) Exceptions thrown by
  a console listener and by \<^verbatim>\<open>console.log\<close>, and time passing inside
  \<^verbatim>\<open>page.screenshot\<close> (the name is computed before it). (2) The machine of
  \<open>PollMachine\<close> extended with the event loop of the console, so that the bound and the
  end-to-end property hold for any interleaving of console messages, not only with timers
  on time.
\<close>

section \<open>The module\<close>

text \<open>\<^verbatim>\<open>module.exports\<close> (lines 52--56): an object with three properties, each
  holding the function of the same name. A test script reaches the helpers only through
  it, after \<^verbatim>\<open>require\<close>; the session below calls them that way.\<close>

record test_helper =
  waitForCondition :: "session condition \<Rightarrow> session scheduler \<Rightarrow> ms option \<Rightarrow> ms option \<Rightarrow>
                       sworld \<Rightarrow> session poll_result option"
  captureConsoleLogs :: "sworld \<Rightarrow> nat \<times> sworld"
  captureScreenshot :: "shooter \<Rightarrow> string \<Rightarrow> sworld \<Rightarrow> (jsval + string) \<times> sworld"

definition module_exports :: test_helper where
  "module_exports =
     \<lparr>waitForCondition = wait_for_condition, captureConsoleLogs = capture_console_logs,
      captureScreenshot = capture_screenshot\<rparr>"

section \<open>The helpers acting on one session\<close>

datatype session_op =
    CaptureConsole
  | ConsoleMessage ms console_message
  | TakeScreenshot string image
  | ScreenshotRejected string jsval

fun session_step :: "session_op \<Rightarrow> sworld \<Rightarrow> sworld" where
  "session_step CaptureConsole w = snd (captureConsoleLogs module_exports w)"
| "session_step (ConsoleMessage t m) w = emit_console m (w\<lparr>clock := t\<rparr>)"
| "session_step (TakeScreenshot name img) w =
     snd (captureScreenshot module_exports (\<lambda>w. (Inr img, w)) name w)"
| "session_step (ScreenshotRejected name e) w =
     snd (captureScreenshot module_exports (\<lambda>w. (Inl e, w)) name w)"

definition run_session :: "session_op list \<Rightarrow> sworld \<Rightarrow> sworld" where
  "run_session ops w = fold session_step ops w"

definition demo_ops :: "session_op list" where
  "demo_ops =
     [CaptureConsole, ConsoleMessage 1000 \<lparr>msg_type = ''log'', msg_text = ''a''\<rparr>,
      TakeScreenshot ''home'' (Image 1), CaptureConsole,
      ConsoleMessage 2000 \<lparr>msg_type = ''error'', msg_text = ''b''\<rparr>,
      ScreenshotRejected ''home'' (JStr ''closed'')]"

section \<open>Polling on a captured console\<close>

text \<open>
  The use the helpers are made for: capture the console, then
  \<^verbatim>\<open>waitForCondition(() => logs.length >= n)\<close>. Console messages \<open>evs\<close> (time,
  message) are delivered by the browser while the poller sleeps: \<open>browser_sleep\<close> is
  the event loop, which runs the listeners of the messages due in the sleep's window and
  fires the timer at its end. \<open>arrived evs t\<close> are the messages due by time \<open>t\<close>.
\<close>

definition arrived :: "(ms \<times> console_message) list \<Rightarrow> ms \<Rightarrow> (ms \<times> console_message) list" where
  "arrived evs t = filter (\<lambda>(t', _). t' \<le> t) evs"

definition browser_sleep :: "(ms \<times> console_message) list \<Rightarrow> session scheduler" where
  "browser_sleep evs d w =
     (deliver (filter (\<lambda>(t, _). clock w < t \<and> t \<le> clock w + d) evs) w)\<lparr>clock := clock w + d\<rparr>"

definition logs_at_least :: "nat \<Rightarrow> nat \<Rightarrow> session condition" where
  "logs_at_least a n w = (Inr (JBool (n \<le> length (arrays (env w) ! a))), w)"

section \<open>Lemmas\<close>

lemma module_exports_fields [simp]:
  "waitForCondition module_exports = wait_for_condition"
  "captureConsoleLogs module_exports = capture_console_logs"
  "captureScreenshot module_exports = capture_screenshot"
  by (simp_all add: module_exports_def)

lemma session_step_prefix:
  "b < length (arrays (env w)) \<Longrightarrow>
   b < length (arrays (env (session_step op w))) \<and>
   prefix (arrays (env w) ! b) (arrays (env (session_step op w)) ! b)"
proof (cases op)
  case CaptureConsole
  assume b: "b < length (arrays (env w))"
  obtain a w' where c: "capture_console_logs w = (a, w')" by fastforce
  show ?thesis using capture_console_logs_fresh(2) [OF c] b CaptureConsole c by (simp add: nth_append)
next
  case (ConsoleMessage t m)
  assume b: "b < length (arrays (env w))"
  then show ?thesis using ConsoleMessage fold_run_listener_prefix [of b "w\<lparr>clock := t\<rparr>" m]
    by (simp add: emit_console_def session_simps)
next
  case (TakeScreenshot name img)
  assume "b < length (arrays (env w))"
  then show ?thesis using TakeScreenshot by (simp add: capture_screenshot_ok)
next
  case (ScreenshotRejected name e)
  assume "b < length (arrays (env w))"
  then show ?thesis using ScreenshotRejected by (simp add: capture_screenshot_err)
qed

lemma arrived_split:
  assumes "sorted (map fst evs)" and "t1 \<le> t2"
  shows "arrived evs t2 = arrived evs t1 @ filter (\<lambda>(t, _). t1 < t \<and> t \<le> t2) evs"
  using assms
proof (induction evs)
  case Nil
  then show ?case by (simp add: arrived_def)
next
  case (Cons e evs)
  obtain t m where e: "e = (t, m)" by fastforce
  show ?case
  proof (cases "t \<le> t1")
    case True
    with Cons e show ?thesis by (simp add: arrived_def)
  next
    case False
    with Cons.prems e have "\<forall>x \<in> set evs. t1 < fst x" by auto
    then have "filter (\<lambda>(t', _). t' \<le> t1) evs = []" and
      "filter (\<lambda>(t', _). t' \<le> t2) evs = filter (\<lambda>(t', _). t1 < t' \<and> t' \<le> t2) evs"
      by (auto intro!: filter_cong simp: filter_empty_conv split: prod.splits)
    with False e show ?thesis by (simp add: arrived_def)
  qed
qed

lemma browser_sleep_frame:
  "clock (browser_sleep evs d w) = clock w + d"
  "listeners (env (browser_sleep evs d w)) = listeners (env w)"
  "wf_session (env (browser_sleep evs d w)) = wf_session (env w)"
  by (simp_all add: browser_sleep_def session_simps)

lemma browser_sleep_logs:
  assumes "wf_session (env w)" and "(''console'', PushLog a) \<in> set (listeners (env w))"
    and "sorted (map fst evs)" and "0 \<le> d"
    and "arrays (env w) ! a = map (\<lambda>(t, m). log_entry_of m t) (arrived evs (clock w))"
  shows "arrays (env (browser_sleep evs d w)) ! a =
           map (\<lambda>(t, m). log_entry_of m t) (arrived evs (clock (browser_sleep evs d w)))"
  using deliver_subscribed [OF assms(1,2)] assms(5) arrived_split [OF assms(3), of "clock w" "clock w + d"] assms(4)
  by (simp add: browser_sleep_def)

lemma arrived_length_mono:
  "sorted (map fst evs) \<Longrightarrow> t1 \<le> t2 \<Longrightarrow> length (arrived evs t1) \<le> length (arrived evs t2)"
  using arrived_split by fastforce

lemma last_check_index:
  fixes k d T :: int
  assumes "0 < d" and "k * d < T" and "T \<le> (k + 1) * d"
  shows "(T - 1) div d = k"
proof -
  have "k * d div d \<le> (T - 1) div d" by (rule zdiv_mono1) (use assms in simp_all)
  then have lo: "k \<le> (T - 1) div d" using assms(1) by simp
  have "(T - 1) div d * d \<le> T - 1"
    using div_mult_mod_eq [of "T - 1" d] pos_mod_sign [OF assms(1), of "T - 1"] by linarith
  then have "(T - 1) div d * d < (k + 1) * d" using assms(3) by linarith
  then have "(T - 1) div d < k + 1" using assms(1) by (simp add: mult_less_cancel_right)
  with lo show ?thesis by linarith
qed

lemma poll_logs_loop:
  assumes "wf_session (env w)" and "(''console'', PushLog a) \<in> set (listeners (env w))"
    and srt: "sorted (map fst evs)"
    and "arrays (env w) ! a = map (\<lambda>(t, m). log_entry_of m t) (arrived evs (clock w))"
    and "clock w = start + int k * timer_delay interval" and "int k * timer_delay interval < timeout"
  shows "\<exists>w'. poll_loop (logs_at_least a n) (browser_sleep evs) timeout interval start w =
           Some (if n \<le> length (arrived evs (start + (timeout - 1) div timer_delay interval * timer_delay interval))
                 then Inr True else Inl TimeoutExceeded, w')"
  using assms
proof (induction "nat ((timeout - 1) div timer_delay interval - int k)" arbitrary: k w rule: less_induct)
  case less
  let ?d = "timer_delay interval" and ?K = "(timeout - 1) div timer_delay interval"
  let ?last = "start + ?K * ?d"
  have d: "0 < ?d" by simp
  have kK: "int k \<le> ?K"
    using mult_less_ceiling [OF d, of "int k" "timeout - ?d"] less.prems(6) by (simp add: algebra_simps)
  have live: "clock w - start < timeout" using less.prems(5,6) by simp
  have len: "length (arrays (env w) ! a) = length (arrived evs (clock w))" using less.prems(4) by simp
  have cw: "logs_at_least a n w = (Inr (JBool (n \<le> length (arrived evs (clock w)))), w)"
    by (simp add: logs_at_least_def len)
  have mono_last: "length (arrived evs (clock w)) \<le> length (arrived evs ?last)"
    using arrived_length_mono [OF srt] kK less.prems(5) d by (simp add: mult_right_mono)
  show ?case
  proof (cases "n \<le> length (arrived evs (clock w))")
    case True
    with live cw mono_last show ?thesis by (simp add: poll_loop_resolved_true)
  next
    case False
    let ?w2 = "browser_sleep evs ?d w"
    have step: "poll_loop (logs_at_least a n) (browser_sleep evs) timeout interval start w =
                poll_loop (logs_at_least a n) (browser_sleep evs) timeout interval start ?w2"
      using live cw False by (simp add: poll_loop_resolved_false)
    have c2: "clock ?w2 = start + int (Suc k) * ?d" using less.prems(5) by (simp add: browser_sleep_frame algebra_simps)
    show ?thesis
    proof (cases "int (Suc k) * ?d < timeout")
      case True
      have inv2: "arrays (env ?w2) ! a = map (\<lambda>(t, m). log_entry_of m t) (arrived evs (clock ?w2))"
        by (rule browser_sleep_logs [OF less.prems(1,2) srt]) (use less.prems(4) in simp_all)
      have "int (Suc k) \<le> ?K"
        using mult_less_ceiling [OF d, of "int (Suc k)" "timeout - ?d"] True by (simp add: algebra_simps)
      then have "nat (?K - int (Suc k)) < nat (?K - int k)" by simp
      from less.hyps [OF this] less.prems(1,2) srt inv2 c2 True step
      show ?thesis by (simp add: browser_sleep_frame)
    next
      case stop: False
      have "?K = int k" by (rule last_check_index [OF d less.prems(6)]) (use stop in \<open>simp add: algebra_simps\<close>)
      with False less.prems(5) have "\<not> n \<le> length (arrived evs ?last)" by simp
      moreover have "\<not> clock ?w2 - start < timeout" using c2 stop by simp
      ultimately show ?thesis using step by (simp add: poll_loop_timeout)
    qed
  qed
qed

section \<open>Properties\<close>

text \<open>C14. Every console array is append-only under every helper: after any sequence of
  captures, console messages and screenshots it still holds what it held, at its
  beginning.\<close>

theorem run_session_logs_append_only:
  "b < length (arrays (env w)) \<Longrightarrow>
   prefix (arrays (env w) ! b) (arrays (env (run_session ops w)) ! b)"
  unfolding run_session_def
proof (induction ops arbitrary: w)
  case Nil
  then show ?case by simp
next
  case (Cons op ops)
  from session_step_prefix [OF Cons.prems] Cons.IH [of "session_step op w"]
  show ?case by (auto intro: prefix_order.trans)
qed

text \<open>C16. Polling on a captured console, end to end: with messages arriving in time
  order after the capture and timers on time, waiting for at least \<open>n\<close> entries
  succeeds exactly when \<open>n\<close> messages have arrived by the last check before the
  deadline, at \<open>\<lfloor>(timeout - 1) / d\<rfloor> * d\<close> ms after the start, and throws the
  timeout error otherwise.\<close>

theorem wait_for_condition_on_captured_logs:
  assumes "wf_session (env w0)" and "capture_console_logs w0 = (a, w1)"
    and "sorted (map fst evs)" and "\<forall>e \<in> set evs. clock w1 < fst e" and "0 < timeout"
  shows "\<exists>w'. wait_for_condition (logs_at_least a n) (browser_sleep evs) (Some timeout) (Some interval) w1 =
    Some (if n \<le> length (arrived evs
                   (clock w1 + (timeout - 1) div timer_delay interval * timer_delay interval))
          then Inr True else Inl TimeoutExceeded, w')"
proof -
  note c = capture_console_logs_fresh [OF assms(2)]
  have "arrived evs (clock w1) = []"
    using assms(4) by (auto simp: arrived_def filter_empty_conv)
  then have inv: "arrays (env w1) ! a = map (\<lambda>(t, m). log_entry_of m t) (arrived evs (clock w1))"
    using c(1,2) by simp
  have "\<exists>w'. poll_loop (logs_at_least a n) (browser_sleep evs) timeout interval (clock w1) w1 =
    Some (if n \<le> length (arrived evs
                   (clock w1 + (timeout - 1) div timer_delay interval * timer_delay interval))
          then Inr True else Inl TimeoutExceeded, w')"
    by (rule poll_logs_loop [OF wf_session_capture [OF assms(1,2)] _ assms(3) inv, where k = 0])
       (use c(3) assms(5) in simp_all)
  then show ?thesis by (simp add: wait_for_condition_def)
qed

section \<open>Witnesses\<close>

theorem run_session_logs_append_only_witness:
  "prefix ([] :: log_entry list)
     (arrays (env (run_session demo_ops (snd (capture_console_logs empty_session)))) ! 0)"
  using run_session_logs_append_only [of 0 "snd (capture_console_logs empty_session)" demo_ops]
  by (simp add: capture_console_logs_def empty_session_def)

theorem wait_for_condition_on_captured_logs_witness:
  "\<exists>w'. wait_for_condition (logs_at_least 0 3) (browser_sleep scenario_C_messages) (Some 5000) (Some 100)
          (snd (capture_console_logs empty_session)) = Some (Inr True, w')"
proof -
  have c: "capture_console_logs empty_session = (0, snd (capture_console_logs empty_session))"
    by (simp add: capture_empty_session)
  have "\<exists>w'. wait_for_condition (logs_at_least 0 3) (browser_sleep scenario_C_messages) (Some 5000) (Some 100)
          (snd (capture_console_logs empty_session)) =
    Some (if 3 \<le> length (arrived scenario_C_messages
                   (clock (snd (capture_console_logs empty_session)) + (5000 - 1) div timer_delay 100 * timer_delay 100))
          then Inr True else Inl TimeoutExceeded, w')"
    by (rule wait_for_condition_on_captured_logs [OF wf_empty_session c])
       (unfold capture_empty_session snd_conv, simp_all add: empty_session_def scenario_C_messages_def)
  then show ?thesis
    unfolding capture_empty_session snd_conv
    by (simp add: empty_session_def scenario_C_messages_def arrived_def timer_delay_def TIMEOUT_MAX_def)
qed

end
